theory Spec2Isabelle
  imports Main "HOL-Library.Word"
begin

section \<open>Strings, numbers and exceptions of the host language\<close>

text \<open>
  A JavaScript string is a sequence of UTF-16 code units; \<open>length\<close>, \<open>split\<close>,
  \<open>substring\<close>, \<open>charCodeAt\<close> and a regular expression without the \<open>u\<close> flag all
  work on code units. A \<open>Buffer\<close> is a sequence of bytes.
\<close>

type_synonym jsstring = "16 word list"

type_synonym buffer = "8 word list"

definition lit :: "string \<Rightarrow> jsstring" where
  "lit s = map of_char s"

text \<open>The decimal rendering of a non-negative integer in a template literal.\<close>

function show_nat :: "nat \<Rightarrow> jsstring" where
  "show_nat n =
     (if n < 10 then [of_nat (48 + n)]
      else show_nat (n div 10) @ [of_nat (48 + n mod 10)])"
  by pat_completeness auto
termination
  by (relation "measure id") auto

declare show_nat.simps [simp del]

text \<open>
  A thrown value: an \<open>Error\<close> object with its message, or any other value, of which
  the handlers only use \<open>String(value)\<close>.
\<close>

datatype exn = ErrorObj jsstring | Thrown jsstring

text \<open>\<open>error instanceof Error ? error.message : String(error)\<close>\<close>

fun errorMessage :: "exn \<Rightarrow> jsstring" where
  "errorMessage (ErrorObj m) = m"
| "errorMessage (Thrown s) = s"

text \<open>\<open>text.split(sep)\<close> for a separator of one code unit: never an empty array.\<close>

fun split_on :: "'a \<Rightarrow> 'a list \<Rightarrow> 'a list list" where
  "split_on d [] = [[]]"
| "split_on d (c # cs) =
     (if c = d then [] # split_on d cs
      else (case split_on d cs of
              [] \<Rightarrow> [[c]]
            | l # ls \<Rightarrow> (c # l) # ls))"

text \<open>\<open>lines.join(sep)\<close>\<close>

fun join_with :: "'a \<Rightarrow> 'a list list \<Rightarrow> 'a list" where
  "join_with d [] = []"
| "join_with d [l] = l"
| "join_with d (l # m # ls) = l @ d # join_with d (m # ls)"

definition newline :: "16 word" where
  "newline = 0x0A"

text \<open>A string used as a condition is true when it is defined and not empty.\<close>

fun truthy :: "jsstring option \<Rightarrow> bool" where
  "truthy None = False"
| "truthy (Some s) = (s \<noteq> [])"

section \<open>The comparison \<open>count > length * 0.1\<close> in double precision\<close>

text \<open>
  The double nearest to one tenth is \<open>3602879701896397 * 2^-55\<close>. The product of an
  integer \<open>n\<close> (exact as a double below \<open>2^53\<close>) with it is the exact product
  \<open>n * 3602879701896397 * 2^-55\<close> rounded to 53 significant bits, ties to even.
  \<open>round53\<close> rounds the integer numerator; the scale \<open>2^-55\<close> is kept outside, so
  that comparing an integer \<open>c\<close> with the product compares \<open>c * 2^55\<close> with the
  rounded numerator. (The exponents that occur are far from the limits of the format.)
\<close>

definition tenth_mantissa :: nat where
  "tenth_mantissa = 3602879701896397"

fun bitlen :: "nat \<Rightarrow> nat" where
  "bitlen n = (if n = 0 then 0 else Suc (bitlen (n div 2)))"

declare bitlen.simps [simp del]

definition round53 :: "nat \<Rightarrow> nat" where
  "round53 p =
     (if bitlen p \<le> 53 then p
      else (let s = bitlen p - 53;
                q = p div 2 ^ s;
                r = p mod 2 ^ s;
                half = 2 ^ (s - 1)
            in if half < r \<or> (r = half \<and> odd q) then (q + 1) * 2 ^ s else q * 2 ^ s))"

definition js_gt_tenth :: "nat \<Rightarrow> nat \<Rightarrow> bool" where
  "js_gt_tenth c n = (round53 (n * tenth_mantissa) < c * 2 ^ 55)"

section \<open>FileContentReader\<close>

record FileContentResult =
  content :: jsstring
  error :: "jsstring option"
  encoding :: "jsstring option"

text \<open>
  The libraries the reader calls, as the values they return for a path or a buffer:
  \<open>isBinaryFileSync\<close> and \<open>fs.readFileSync\<close> may throw (file vanished, no permission),
  \<open>chardet.detect\<close> returns a charset name or \<open>null\<close>, \<open>iconv.decode\<close> throws on a
  charset it does not know.
\<close>

record reader_env =
  isBinaryFileSync :: "jsstring \<Rightarrow> exn + bool"
  readFileSync :: "jsstring \<Rightarrow> exn + buffer"
  chardet_detect :: "buffer \<Rightarrow> jsstring option"
  iconv_decode :: "buffer \<Rightarrow> jsstring \<Rightarrow> exn + jsstring"

text \<open>The character class \<open>[\x00-\x08\x0E-\x1F\x7F-\x9F]\<close>.\<close>

definition isControlChar :: "16 word \<Rightarrow> bool" where
  "isControlChar c = (c \<le> 0x08 \<or> (0x0E \<le> c \<and> c \<le> 0x1F) \<or> (0x7F \<le> c \<and> c \<le> 0x9F))"

text \<open>\<open>detected || 'utf8'\<close>\<close>

definition encoding_or_default :: "jsstring option \<Rightarrow> jsstring" where
  "encoding_or_default detected =
     (case detected of
        None \<Rightarrow> lit ''utf8''
      | Some d \<Rightarrow> if d \<noteq> [] then d else lit ''utf8'')"

text \<open>\<open>if (content.charCodeAt(0) === 0xFEFF) content = content.slice(1)\<close>\<close>

fun stripBOM :: "jsstring \<Rightarrow> jsstring" where
  "stripBOM [] = []"
| "stripBOM (c # cs) = (if c = 0xFEFF then cs else c # cs)"

text \<open>
  The screen after decoding. \<open>content.match(/.../g)\<close> is \<open>null\<close> when nothing matches
  and the array of all matches otherwise.
\<close>

definition controlScreen :: "jsstring \<Rightarrow> jsstring \<Rightarrow> FileContentResult" where
  "controlScreen decoded enc =
     (let controlChars = filter isControlChar decoded
      in if controlChars \<noteq> [] \<and> js_gt_tenth (length controlChars) (length decoded)
         then \<lparr>content = [],
               error = Some (lit ''File contains control characters (content not displayed)''),
               encoding = Some enc\<rparr>
         else \<lparr>content = decoded, error = None, encoding = Some enc\<rparr>)"

text \<open>The body of the \<open>try\<close> block of \<open>getFileContent\<close>: \<open>Inl\<close> is a thrown exception.\<close>

definition getFileContent_try :: "reader_env \<Rightarrow> jsstring \<Rightarrow> exn + FileContentResult" where
  "getFileContent_try env filePath =
     (case isBinaryFileSync env filePath of
        Inl e \<Rightarrow> Inl e
      | Inr True \<Rightarrow>
          Inr \<lparr>content = [],
               error = Some (lit ''Binary file (content not displayed)''),
               encoding = None\<rparr>
      | Inr False \<Rightarrow>
          (case readFileSync env filePath of
             Inl e \<Rightarrow> Inl e
           | Inr buf \<Rightarrow>
               (let enc = encoding_or_default (chardet_detect env buf)
                in case iconv_decode env buf enc of
                     Inl e \<Rightarrow> Inl e
                   | Inr decoded \<Rightarrow> Inr (controlScreen (stripBOM decoded) enc))))"

definition getFileContent :: "reader_env \<Rightarrow> jsstring \<Rightarrow> FileContentResult" where
  "getFileContent env filePath =
     (case getFileContent_try env filePath of
        Inr r \<Rightarrow> r
      | Inl e \<Rightarrow>
          \<lparr>content = [],
           error = Some (lit ''Reading error: '' @ errorMessage e),
           encoding = None\<rparr>)"

section \<open>HTMLToPDFGenerator: the section of a text file\<close>

datatype file_type = Text | Image | Binary

record CollectedFile =
  path :: jsstring
  type :: file_type
  relativePath :: jsstring

text \<open>\<open>text.replace(/c/g, rep)\<close> for a pattern of one code unit.\<close>

definition replaceAll :: "16 word \<Rightarrow> jsstring \<Rightarrow> jsstring \<Rightarrow> jsstring" where
  "replaceAll c rep text = concat (map (\<lambda>x. if x = c then rep else [x]) text)"

definition escapeHTML :: "jsstring \<Rightarrow> jsstring" where
  \<open>escapeHTML text =
     replaceAll 0x27 (lit ''&#039;'')
       (replaceAll 0x22 (lit ''&quot;'')
         (replaceAll 0x3E (lit ''&gt;'')
           (replaceAll 0x3C (lit ''&lt;'')
             (replaceAll 0x26 (lit ''&amp;'') text))))\<close>

definition maxLines :: nat where
  "maxLines = 500"

definition maxLineLength :: nat where
  "maxLineLength = 300"

definition displayLines :: "jsstring list \<Rightarrow> jsstring list" where
  "displayLines contentLines =
     (if maxLines < length contentLines then take maxLines contentLines else contentLines)"

definition displayLine :: "jsstring \<Rightarrow> jsstring" where
  "displayLine line =
     (if maxLineLength < length line then take maxLineLength line @ lit ''...'' else line)"

definition lineHTML :: "nat \<Rightarrow> jsstring \<Rightarrow> jsstring" where
  \<open>lineHTML lineNumber line =
     lit ''<span class="file-content-line"><span class="line-number">'' @ show_nat lineNumber
       @ lit ''</span>'' @ escapeHTML (displayLine line) @ lit ''</span>'' @ [newline]\<close>

text \<open>The \<open>for\<close> loop over \<open>displayLines\<close>, from index \<open>i\<close> on.\<close>

fun linesHTML :: "nat \<Rightarrow> jsstring list \<Rightarrow> jsstring" where
  "linesHTML i [] = []"
| "linesHTML i (line # rest) = lineHTML (i + 1) line @ linesHTML (i + 1) rest"

definition omissionMarker :: "nat \<Rightarrow> jsstring" where
  "omissionMarker k = [newline, newline] @ lit ''... ('' @ show_nat k @ lit '' more lines)''"

definition encodingInfo :: "jsstring option \<Rightarrow> jsstring" where
  \<open>encodingInfo enc =
     (case enc of
        None \<Rightarrow> []
      | Some e \<Rightarrow>
          if e \<noteq> [] then lit ''<div class="encoding-info">Encoding: '' @ e @ lit ''</div>''
          else [])\<close>

definition errorNotice :: "jsstring \<Rightarrow> jsstring" where
  \<open>errorNotice msg = lit ''<p class="binary-notice">'' @ escapeHTML msg @ lit ''</p>''\<close>

definition generateTextFileHTML :: "reader_env \<Rightarrow> CollectedFile \<Rightarrow> jsstring" where
  "generateTextFileHTML env file =
     (let r = getFileContent env (path file)
      in case (if truthy (error r) then error r else None) of
           Some msg \<Rightarrow> errorNotice msg
         | None \<Rightarrow>
             (let contentLines = split_on newline (content r)
              in encodingInfo (encoding r) @ lit ''<pre>''
                   @ linesHTML 0 (displayLines contentLines)
                   @ (if maxLines < length contentLines
                      then omissionMarker (length contentLines - maxLines) else [])
                   @ lit ''</pre>''))"

text \<open>
  \<open>_generateFileContentsHTML\<close>: the sections of the files, in the order of the list.
  \<open>imageHTML\<close> stands for \<open>_generateImageHTML\<close>, which reads the image, catches what
  the read throws and always returns a string.
\<close>

definition fileSectionHTML ::
    "reader_env \<Rightarrow> (CollectedFile \<Rightarrow> jsstring) \<Rightarrow> CollectedFile \<Rightarrow> jsstring" where
  \<open>fileSectionHTML env imageHTML file =
     lit ''<div class="file-path">/'' @ escapeHTML (relativePath file) @ lit '':</div>''
       @ (case type file of
            Image \<Rightarrow> imageHTML file
          | Binary \<Rightarrow> lit ''<p class="binary-notice">Binary file (content not displayed)</p>''
          | Text \<Rightarrow> generateTextFileHTML env file)\<close>

fun generateFileContentsHTML ::
    "reader_env \<Rightarrow> (CollectedFile \<Rightarrow> jsstring) \<Rightarrow> CollectedFile list \<Rightarrow> jsstring" where
  "generateFileContentsHTML env imageHTML [] = []"
| "generateFileContentsHTML env imageHTML (file # files) =
     fileSectionHTML env imageHTML file @ generateFileContentsHTML env imageHTML files"

text \<open>
  The counts of \<open>main\<close> and \<open>generatePDF\<close>: \<open>files.filter(f => f.type === ...).length\<close>.
\<close>

definition textCount :: "CollectedFile list \<Rightarrow> nat" where
  "textCount files = length (filter (\<lambda>f. type f = Text) files)"

definition imageCount :: "CollectedFile list \<Rightarrow> nat" where
  "imageCount files = length (filter (\<lambda>f. type f = Image) files)"

definition binaryCount :: "CollectedFile list \<Rightarrow> nat" where
  "binaryCount files = length (filter (\<lambda>f. type f = Binary) files)"

section \<open>The file system and the paths\<close>

text \<open>
  The directory tree under the base directory, as the file system calls of the
  collector see it: a file, with its name and the result of \<open>isBinaryFileSync\<close> on it
  (which throws when the file cannot be opened); a directory, with its name and its
  entries in the order in which \<open>fs.readdirSync\<close> returns them; a directory on which
  \<open>fs.readdirSync\<close> throws; an entry on which \<open>fs.statSync\<close> throws (a link whose
  target is missing, an entry removed after the listing).
\<close>

datatype fsnode =
    FileN jsstring "exn + bool"
  | DirN jsstring "fsnode list"
  | NoListN jsstring exn
  | NoStatN jsstring exn

text \<open>
  The name \<open>fs.readdirSync\<close> returns for an entry.
\<close>

fun nodeName :: "fsnode \<Rightarrow> jsstring" where
  "nodeName (FileN name probe) = name"
| "nodeName (DirN name items) = name"
| "nodeName (NoListN name e) = name"
| "nodeName (NoStatN name e) = name"

text \<open>
  \<open>fs.statSync(fullPath).isDirectory()\<close>: \<open>Inl\<close> is the exception of \<open>fs.statSync\<close>.
\<close>

fun isDirectory :: "fsnode \<Rightarrow> exn + bool" where
  "isDirectory (FileN name probe) = Inr False"
| "isDirectory (DirN name items) = Inr True"
| "isDirectory (NoListN name e) = Inr True"
| "isDirectory (NoStatN name e) = Inl e"

definition slash :: "16 word" where "slash = 0x2F"

definition dot :: "16 word" where "dot = 0x2E"

text \<open>
  \<open>path.join(dir, name)\<close> for a normalised absolute directory and a name that
  \<open>fs.readdirSync\<close> returned (no separator in it).
\<close>

definition path_join :: "jsstring \<Rightarrow> jsstring \<Rightarrow> jsstring" where
  "path_join dir name = (if dir \<noteq> [] \<and> last dir = slash then dir @ name else dir @ slash # name)"

text \<open>
  \<open>path.relative(base, full)\<close> for a path below the base directory: what follows the
  base and the separator.
\<close>

definition path_relative :: "jsstring \<Rightarrow> jsstring \<Rightarrow> jsstring" where
  "path_relative base full =
     drop (length base + (if base \<noteq> [] \<and> last base = slash then 0 else 1)) full"

text \<open>
  \<open>path.basename\<close>: the last portion of a path.
\<close>

definition basename :: "jsstring \<Rightarrow> jsstring" where
  "basename p = rev (takeWhile (\<lambda>c. c \<noteq> slash) (rev p))"

text \<open>
  \<open>path.extname\<close>: the last portion from its last dot on; empty when it has no dot,
  when nothing stands before its last dot, and for \<open>..\<close>.
\<close>

definition extname :: "jsstring \<Rightarrow> jsstring" where
  "extname p =
     (let b = basename p;
          e = rev (takeWhile (\<lambda>c. c \<noteq> dot) (rev b));
          stem = take (length b - length e - 1) b
      in if dot \<notin> set b \<or> stem = [] \<or> b = [dot, dot] then [] else dot # e)"

text \<open>
  \<open>toLowerCase\<close> on the letters \<open>A-Z\<close>. The table of image extensions is ASCII and no
  other code unit lower-cases to one of its letters, so the result is in the table
  exactly when the lower-cased extension of the source is.
\<close>

definition toLowerCase :: "jsstring \<Rightarrow> jsstring" where
  "toLowerCase s = map (\<lambda>c. if 0x41 \<le> c \<and> c \<le> 0x5A then c + 0x20 else c) s"

definition imageExts :: "jsstring list" where
  "imageExts = [lit ''.jpg'', lit ''.jpeg'', lit ''.png'', lit ''.gif'', lit ''.bmp'',
                lit ''.webp'', lit ''.svg'', lit ''.tiff'', lit ''.tif'']"

text \<open>
  \<open>fs.readdirSync(dirPath)\<close> where \<open>node\<close> is what the path names. On a file it throws
  \<open>ENOTDIR\<close> with the message of the host. The walk lists a path only after
  \<open>fs.statSync\<close> succeeded on it, so the last case is met for the base directory alone,
  whose exception is then what the listing throws.
\<close>

definition readdirSync :: "jsstring \<Rightarrow> fsnode \<Rightarrow> exn + fsnode list" where
  "readdirSync dirPath node =
     (case node of
        DirN name items \<Rightarrow> Inr items
      | NoListN name e \<Rightarrow> Inl e
      | FileN name probe \<Rightarrow>
          Inl (ErrorObj (lit ''ENOTDIR: not a directory, scandir '' @ [0x27] @ dirPath @ [0x27]))
      | NoStatN name e \<Rightarrow> Inl e)"

lemma readdirSync_size: "readdirSync d node = Inr items \<Longrightarrow> size_list size items < size node"
  by (cases node) (auto simp: readdirSync_def)

section \<open>FileCollector\<close>

text \<open>
  A \<open>FileCollector\<close>: the base directory, \<open>ignoreManager.ignores\<close> (a call into the
  \<open>ignore\<close> package, which answers or throws) and the recursive flag; and
  \<open>String.prototype.localeCompare\<close> of the host, on whose locale the sorted tree
  depends.
\<close>

record collector =
  baseDir :: jsstring
  ignores :: "jsstring \<Rightarrow> exn + bool"
  isRecursive :: bool
  localeCompare :: "jsstring \<Rightarrow> jsstring \<Rightarrow> int"

text \<open>
  \<open>_detectFileType(filePath)\<close>, given the result of \<open>isBinaryFileSync\<close> on the file.
  The probe is only called for a name that is not in the table.
\<close>

definition detectFileType :: "jsstring \<Rightarrow> (exn + bool) \<Rightarrow> exn + file_type" where
  "detectFileType filePath probe =
     (if toLowerCase (extname filePath) \<in> set imageExts then Inr Image
      else (case probe of
              Inl e \<Rightarrow> Inl e
            | Inr True \<Rightarrow> Inr Binary
            | Inr False \<Rightarrow> Inr Text))"

text \<open>
  \<open>_collectFilesRecursive\<close>. \<open>collect_entry\<close> is the callback of \<open>forEach\<close> for one
  entry: the exception it throws, if any (of \<open>ignores\<close>, of \<open>fs.statSync\<close> or of the
  type probe), and the files it pushes on \<open>result\<close>. \<open>collect_entries\<close> is \<open>forEach\<close>:
  it ends at the first callback that throws, and what was pushed before stays pushed.
  \<open>collectFilesRecursive\<close> is the method, with the \<open>try\<close> around \<open>fs.readdirSync\<close> and
  the loop: its handler logs the exception and the method returns.
\<close>

function collect_entry :: "collector \<Rightarrow> jsstring \<Rightarrow> fsnode \<Rightarrow> exn option \<times> CollectedFile list"
  and collect_entries :: "collector \<Rightarrow> jsstring \<Rightarrow> fsnode list \<Rightarrow> exn option \<times> CollectedFile list"
  and collectFilesRecursive :: "collector \<Rightarrow> jsstring \<Rightarrow> fsnode \<Rightarrow> CollectedFile list"
  where
  "collect_entry c dirPath node =
     (let fullPath = path_join dirPath (nodeName node);
          rel = path_relative (baseDir c) fullPath
      in case ignores c rel of
           Inl e \<Rightarrow> (Some e, [])
         | Inr True \<Rightarrow> (None, [])
         | Inr False \<Rightarrow>
             (case isDirectory node of
                Inl e \<Rightarrow> (Some e, [])
              | Inr True \<Rightarrow>
                  (None, if isRecursive c then collectFilesRecursive c fullPath node else [])
              | Inr False \<Rightarrow>
                  (case node of
                     FileN name probe \<Rightarrow>
                       (case detectFileType fullPath probe of
                          Inl e \<Rightarrow> (Some e, [])
                        | Inr t \<Rightarrow> (None, [\<lparr>path = fullPath, type = t, relativePath = rel\<rparr>]))
                   | _ \<Rightarrow> (None, []))))"
| "collect_entries c dirPath [] = (None, [])"
| "collect_entries c dirPath (x # xs) =
     (case collect_entry c dirPath x of
        (Some e, fs) \<Rightarrow> (Some e, fs)
      | (None, fs) \<Rightarrow> (case collect_entries c dirPath xs of (r, gs) \<Rightarrow> (r, fs @ gs)))"
| "collectFilesRecursive c dirPath node =
     (case readdirSync dirPath node of
        Inl e \<Rightarrow> []
      | Inr files \<Rightarrow> snd (collect_entries c dirPath files))"
  by pat_completeness auto
termination
  apply (relation "measure (\<lambda>v. case v of
            Inl (c, d, node) \<Rightarrow> 3 * size node + 2
          | Inr (Inl (c, d, xs)) \<Rightarrow> 3 * size_list size xs
          | Inr (Inr (c, d, node)) \<Rightarrow> 3 * size node + 1)")
  apply (auto dest: readdirSync_size)
  done

definition collectFiles :: "collector \<Rightarrow> fsnode \<Rightarrow> CollectedFile list" where
  "collectFiles c root = collectFilesRecursive c (baseDir c) root"

text \<open>
  \<open>Array.prototype.sort\<close> is stable, and an exception of the comparator ends it. For a
  consistent comparator that does not throw every stable sort returns the same array;
  it is computed here by insertion, an element going before the first one it does not
  compare greater than. With two items or more every item takes part in a comparison,
  whatever the order in which the engine compares; that order only decides which
  exception is seen when the comparator throws for more than one item.
\<close>

fun insert_sorted :: "('a \<Rightarrow> 'a \<Rightarrow> exn + int) \<Rightarrow> 'a \<Rightarrow> 'a list \<Rightarrow> exn + 'a list" where
  "insert_sorted cmp x [] = Inr [x]"
| "insert_sorted cmp x (y # ys) =
     (case cmp x y of
        Inl e \<Rightarrow> Inl e
      | Inr r \<Rightarrow>
          if r \<le> 0 then Inr (x # y # ys)
          else (case insert_sorted cmp x ys of
                  Inl e \<Rightarrow> Inl e
                | Inr zs \<Rightarrow> Inr (y # zs)))"

fun array_sort :: "('a \<Rightarrow> 'a \<Rightarrow> exn + int) \<Rightarrow> 'a list \<Rightarrow> exn + 'a list" where
  "array_sort cmp [] = Inr []"
| "array_sort cmp (x # xs) =
     (case array_sort cmp xs of
        Inl e \<Rightarrow> Inl e
      | Inr ys \<Rightarrow> insert_sorted cmp x ys)"

text \<open>
  The comparator of \<open>_buildTree\<close>: \<open>fs.statSync\<close> on both items, then directories
  first, then \<open>localeCompare\<close>.
\<close>

definition compareItems :: "collector \<Rightarrow> fsnode \<Rightarrow> fsnode \<Rightarrow> exn + int" where
  "compareItems c a b =
     (case isDirectory a of
        Inl e \<Rightarrow> Inl e
      | Inr aIsDir \<Rightarrow>
          (case isDirectory b of
             Inl e \<Rightarrow> Inl e
           | Inr bIsDir \<Rightarrow>
               Inr (if aIsDir \<and> \<not> bIsDir then - 1
                    else if \<not> aIsDir \<and> bIsDir then 1
                    else localeCompare c (nodeName a) (nodeName b))))"

definition sortItems :: "collector \<Rightarrow> fsnode list \<Rightarrow> exn + fsnode list" where
  "sortItems c items = array_sort (compareItems c) items"

text \<open>
  The connectors and indentations of the tree: \<open>U+2514 U+2500 U+2500 space\<close> for
  the last entry, \<open>U+251C U+2500 U+2500 space\<close> for the others; four spaces below a
  last entry, \<open>U+2502\<close> and three spaces below the others.
\<close>

definition lastConnector :: jsstring where
  "lastConnector = [0x2514, 0x2500, 0x2500, 0x20]"

definition midConnector :: jsstring where
  "midConnector = [0x251C, 0x2500, 0x2500, 0x20]"

definition lastIndent :: jsstring where
  "lastIndent = [0x20, 0x20, 0x20, 0x20]"

definition midIndent :: jsstring where
  "midIndent = [0x2502, 0x20, 0x20, 0x20]"

text \<open>
  Sorting keeps the sizes: the recursion of the tree builder ends.
\<close>

lemma size_insert_sorted:
  "insert_sorted cmp x ys = Inr zs \<Longrightarrow> size_list f zs = size_list f (x # ys)"
  by (induction ys arbitrary: zs) (auto split: sum.splits if_splits)

lemma size_array_sort: "array_sort cmp xs = Inr ys \<Longrightarrow> size_list f ys = size_list f xs"
proof (induction xs arbitrary: ys)
  case Nil
  then show ?case by simp
next
  case (Cons x xs)
  then obtain zs where z: "array_sort cmp xs = Inr zs" and i: "insert_sorted cmp x zs = Inr ys"
    by (auto split: sum.splits)
  from size_insert_sorted [OF i, of f] Cons.IH [OF z] show ?case by simp
qed

lemma size_sortItems: "sortItems c xs = Inr ys \<Longrightarrow> size_list f ys = size_list f xs"
  by (simp add: sortItems_def size_array_sort)

text \<open>
  \<open>_buildTree\<close>. \<open>tree_entry\<close> is the callback of \<open>forEach\<close> at \<open>index\<close> of the
  \<open>n\<close> sorted items: the exception it throws, if any (of \<open>fs.statSync\<close> or of
  \<open>ignores\<close>), and the lines it pushes on \<open>treeLines\<close>. \<open>tree_entries\<close> is \<open>forEach\<close>
  from \<open>index\<close> on: it ends at the first callback that throws. \<open>buildTree\<close> is the
  method: the depth guard, and the \<open>try\<close> around the listing, the sort and the loop,
  whose handler pushes the error line after the lines pushed so far.
\<close>

function tree_entry :: "collector \<Rightarrow> jsstring \<Rightarrow> jsstring \<Rightarrow> nat \<Rightarrow> nat \<Rightarrow> nat \<Rightarrow> fsnode \<Rightarrow> exn option \<times> jsstring list"
  and tree_entries :: "collector \<Rightarrow> jsstring \<Rightarrow> jsstring \<Rightarrow> nat \<Rightarrow> nat \<Rightarrow> nat \<Rightarrow> fsnode list \<Rightarrow> exn option \<times> jsstring list"
  and buildTree :: "collector \<Rightarrow> jsstring \<Rightarrow> jsstring \<Rightarrow> nat \<Rightarrow> fsnode \<Rightarrow> jsstring list"
  where
  "tree_entry c currentDir prefix depth n index item =
     (let fullPath = path_join currentDir (nodeName item);
          rel = path_relative (baseDir c) fullPath
      in case isDirectory item of
           Inl e \<Rightarrow> (Some e, [])
         | Inr isDir \<Rightarrow>
             (case ignores c rel of
                Inl e \<Rightarrow> (Some e, [])
              | Inr True \<Rightarrow> (None, [])
              | Inr False \<Rightarrow>
                  (let connector = (if int index = int n - 1 then lastConnector else midConnector)
                   in (None,
                       (prefix @ connector @ nodeName item @ (if isDir then [slash] else []))
                       # (if isDir \<and> isRecursive c
                          then buildTree c fullPath
                                 (prefix @ (if int index = int n - 1 then lastIndent else midIndent))
                                 (depth + 1) item
                          else [])))))"
| "tree_entries c currentDir prefix depth n index [] = (None, [])"
| "tree_entries c currentDir prefix depth n index (x # xs) =
     (case tree_entry c currentDir prefix depth n index x of
        (Some e, ls) \<Rightarrow> (Some e, ls)
      | (None, ls) \<Rightarrow>
          (case tree_entries c currentDir prefix depth n (index + 1) xs of
             (r, ms) \<Rightarrow> (r, ls @ ms)))"
| "buildTree c currentDir prefix depth node =
     (if 0 < depth \<and> \<not> isRecursive c then []
      else (case readdirSync currentDir node of
              Inl e \<Rightarrow> [prefix @ lit ''Error: '' @ errorMessage e]
            | Inr items \<Rightarrow>
                (case sortItems c items of
                   Inl e \<Rightarrow> [prefix @ lit ''Error: '' @ errorMessage e]
                 | Inr sortedItems \<Rightarrow>
                     (case tree_entries c currentDir prefix depth (length sortedItems) 0 sortedItems of
                        (None, ls) \<Rightarrow> ls
                      | (Some e, ls) \<Rightarrow> ls @ [prefix @ lit ''Error: '' @ errorMessage e]))))"
  by pat_completeness auto
termination
  apply (relation "measure (\<lambda>v. case v of
            Inl (c, d, p, k, n, i, node) \<Rightarrow> 3 * size node + 2
          | Inr (Inl (c, d, p, k, n, i, xs)) \<Rightarrow> 3 * size_list size xs
          | Inr (Inr (c, d, p, k, node)) \<Rightarrow> 3 * size node + 1)")
  apply (auto dest!: readdirSync_size size_sortItems [where f = size])
  done

definition getDirectoryStructure :: "collector \<Rightarrow> fsnode \<Rightarrow> jsstring list" where
  "getDirectoryStructure c root =
     (basename (baseDir c) @ [slash]) # buildTree c (baseDir c) [] 0 root"

declare collect_entry.simps [simp del] collectFilesRecursive.simps [simp del]
  tree_entry.simps [simp del] buildTree.simps [simp del]

section \<open>The tree lines with the entries they list\<close>

text \<open>
  The tree once more, each line with what it lists: a file or a directory, with its
  path relative to the base directory, or an error. Its lines are the lines of
  \<open>buildTree\<close> (lemma \<open>rows_lines\<close>), so the files of its rows, in order, are the files
  in the order of the tree lines.
\<close>

datatype row_kind = FileRow jsstring | DirRow jsstring | ErrorRow

function tree_entry_rows :: "collector \<Rightarrow> jsstring \<Rightarrow> jsstring \<Rightarrow> nat \<Rightarrow> nat \<Rightarrow> nat \<Rightarrow> fsnode \<Rightarrow> exn option \<times> (jsstring \<times> row_kind) list"
  and tree_entries_rows :: "collector \<Rightarrow> jsstring \<Rightarrow> jsstring \<Rightarrow> nat \<Rightarrow> nat \<Rightarrow> nat \<Rightarrow> fsnode list \<Rightarrow> exn option \<times> (jsstring \<times> row_kind) list"
  and buildTreeRows :: "collector \<Rightarrow> jsstring \<Rightarrow> jsstring \<Rightarrow> nat \<Rightarrow> fsnode \<Rightarrow> (jsstring \<times> row_kind) list"
  where
  "tree_entry_rows c currentDir prefix depth n index item =
     (let fullPath = path_join currentDir (nodeName item);
          rel = path_relative (baseDir c) fullPath
      in case isDirectory item of
           Inl e \<Rightarrow> (Some e, [])
         | Inr isDir \<Rightarrow>
             (case ignores c rel of
                Inl e \<Rightarrow> (Some e, [])
              | Inr True \<Rightarrow> (None, [])
              | Inr False \<Rightarrow>
                  (let connector = (if int index = int n - 1 then lastConnector else midConnector)
                   in (None,
                       (prefix @ connector @ nodeName item @ (if isDir then [slash] else []),
                        if isDir then DirRow rel else FileRow rel)
                       # (if isDir \<and> isRecursive c
                          then buildTreeRows c fullPath
                                 (prefix @ (if int index = int n - 1 then lastIndent else midIndent))
                                 (depth + 1) item
                          else [])))))"
| "tree_entries_rows c currentDir prefix depth n index [] = (None, [])"
| "tree_entries_rows c currentDir prefix depth n index (x # xs) =
     (case tree_entry_rows c currentDir prefix depth n index x of
        (Some e, ls) \<Rightarrow> (Some e, ls)
      | (None, ls) \<Rightarrow>
          (case tree_entries_rows c currentDir prefix depth n (index + 1) xs of
             (r, ms) \<Rightarrow> (r, ls @ ms)))"
| "buildTreeRows c currentDir prefix depth node =
     (if 0 < depth \<and> \<not> isRecursive c then []
      else (case readdirSync currentDir node of
              Inl e \<Rightarrow> [(prefix @ lit ''Error: '' @ errorMessage e, ErrorRow)]
            | Inr items \<Rightarrow>
                (case sortItems c items of
                   Inl e \<Rightarrow> [(prefix @ lit ''Error: '' @ errorMessage e, ErrorRow)]
                 | Inr sortedItems \<Rightarrow>
                     (case tree_entries_rows c currentDir prefix depth (length sortedItems) 0 sortedItems of
                        (None, ls) \<Rightarrow> ls
                      | (Some e, ls) \<Rightarrow> ls @ [(prefix @ lit ''Error: '' @ errorMessage e, ErrorRow)]))))"
  by pat_completeness auto
termination
  apply (relation "measure (\<lambda>v. case v of
            Inl (c, d, p, k, n, i, node) \<Rightarrow> 3 * size node + 2
          | Inr (Inl (c, d, p, k, n, i, xs)) \<Rightarrow> 3 * size_list size xs
          | Inr (Inr (c, d, p, k, node)) \<Rightarrow> 3 * size node + 1)")
  apply (auto dest!: readdirSync_size size_sortItems [where f = size])
  done

declare tree_entry_rows.simps [simp del] buildTreeRows.simps [simp del]

fun row_file :: "jsstring \<times> row_kind \<Rightarrow> jsstring option" where
  "row_file (line, FileRow p) = Some p"
| "row_file (line, DirRow p) = None"
| "row_file (line, ErrorRow) = None"

definition treeFileOrder :: "collector \<Rightarrow> fsnode \<Rightarrow> jsstring list" where
  "treeFileOrder c root = List.map_filter row_file (buildTreeRows c (baseDir c) [] 0 root)"

section \<open>IgnoreRulesManager\<close>

text \<open>
  Modelled from the spec: the pattern language of the \<open>ignore\<close> package (the package is
  not among the sources) is a parameter. \<open>matches line p\<close> says whether the pattern
  of a line of gitignore syntax, its polarity aside, matches the relative path \<open>p\<close>;
  a blank line and a comment match nothing. The path of a directory above an entry is
  written with a trailing \<open>/\<close>.
\<close>

type_synonym pattern_matcher = "jsstring \<Rightarrow> jsstring \<Rightarrow> bool"

text \<open>
  Modelled from the spec: a pattern line that begins with \<open>!\<close> is negated: it
  re-includes the paths it matches.
\<close>

definition negated :: "jsstring \<Rightarrow> bool" where
  "negated line = (line \<noteq> [] \<and> hd line = 0x21)"

text \<open>
  Modelled from the spec: the rule set is the ordered list of the pattern lines, and
  \<open>isIgnored\<close> evaluates it in order, in full: every line that matches the path sets
  the verdict by its polarity, so the last one that matches decides.
\<close>

definition verdict_step :: "pattern_matcher \<Rightarrow> jsstring \<Rightarrow> bool \<Rightarrow> jsstring \<Rightarrow> bool" where
  "verdict_step matches p verdict line = (if matches line p then \<not> negated line else verdict)"

text \<open>
  Modelled from the spec: the verdict of the rules on one path, from no line matching
  (not ignored) on.
\<close>

definition test_rules :: "pattern_matcher \<Rightarrow> jsstring list \<Rightarrow> jsstring \<Rightarrow> bool" where
  "test_rules matches rules p = foldl (verdict_step matches p) False rules"

text \<open>
  Modelled from the spec: in gitignore semantics a path below an excluded directory
  stays excluded whatever the rules say of the path itself. \<open>parent_ignored\<close> tests the
  directories above a path, the outermost first; \<open>pre\<close> is the path so far and the
  list holds the segments still to come, the last of which is the entry itself.
\<close>

fun parent_ignored :: "pattern_matcher \<Rightarrow> jsstring list \<Rightarrow> jsstring \<Rightarrow> jsstring list \<Rightarrow> bool" where
  "parent_ignored matches rules pre [] = False"
| "parent_ignored matches rules pre [s] = False"
| "parent_ignored matches rules pre (s # t # ss) =
     (test_rules matches rules (pre @ s @ [slash])
      \<or> parent_ignored matches rules (pre @ s @ [slash]) (t # ss))"

text \<open>
  Modelled from the spec: \<open>isIgnored\<close> for a relative path: a directory above it is
  excluded, or the rules exclude the path itself.
\<close>

definition rules_ignore :: "pattern_matcher \<Rightarrow> jsstring list \<Rightarrow> jsstring \<Rightarrow> bool" where
  "rules_ignore matches rules p =
     (parent_ignored matches rules [] (filter (\<lambda>s. s \<noteq> []) (split_on slash p))
      \<or> test_rules matches rules p)"

text \<open>
  Modelled from the spec: the lines of an ignore file, \<open>text.split(/\r?\n/)\<close>: a line
  ends at a line feed, and a carriage return just before the line feed is not part of
  the line.
\<close>

fun split_lines :: "jsstring \<Rightarrow> jsstring list" where
  "split_lines [] = [[]]"
| "split_lines [c] = (if c = 0x0A then [[], []] else [[c]])"
| "split_lines (c # d # cs) =
     (if c = 0x0A then [] # split_lines (d # cs)
      else if c = 0x0D \<and> d = 0x0A then [] # split_lines cs
      else (case split_lines (d # cs) of
              [] \<Rightarrow> [[c]]
            | l # ls \<Rightarrow> (c # l) # ls))"

text \<open>
  Modelled from the spec: \<open>add\<close> of an array of patterns: each is one pattern line,
  after the lines there are.
\<close>

definition add_patterns :: "jsstring list \<Rightarrow> jsstring list \<Rightarrow> jsstring list" where
  "add_patterns rules patterns = rules @ patterns"

text \<open>
  Modelled from the spec: \<open>add\<close> of a text, one pattern per line.
\<close>

definition add_text :: "jsstring list \<Rightarrow> jsstring \<Rightarrow> jsstring list" where
  "add_text rules text = add_patterns rules (split_lines text)"

text \<open>
  The constructor of \<open>IgnoreRulesManager\<close>, from the source. \<open>gitignore\<close> is \<open>None\<close>
  when \<open>fs.existsSync\<close> is false, and otherwise the result of \<open>fs.readFileSync\<close>,
  which may throw: then the constructor throws. The extra patterns are added when
  there are any. The result is the rule list of the \<open>Ignore\<close> object.
\<close>

definition newIgnoreRulesManager ::
    "(exn + jsstring) option \<Rightarrow> jsstring list \<Rightarrow> exn + jsstring list" where
  "newIgnoreRulesManager gitignore extraIgnores =
     (let ig0 = add_text [] (lit ''.git'')
      in case (case gitignore of
                 None \<Rightarrow> Inr ig0
               | Some (Inl e) \<Rightarrow> Inl e
               | Some (Inr gitignoreContent) \<Rightarrow> Inr (add_text ig0 gitignoreContent)) of
           Inl e \<Rightarrow> Inl e
         | Inr ig1 \<Rightarrow>
             Inr (if 0 < length extraIgnores then add_patterns ig1 extraIgnores else ig1))"

section \<open>Conditions of the claims\<close>

text \<open>
  The decimal digits \<open>0\<close> to \<open>9\<close>, and the number that a run of them states.
\<close>

definition is_digit :: "16 word \<Rightarrow> bool" where
  "is_digit d = (0x30 \<le> d \<and> d \<le> 0x39)"

definition read_decimal :: "jsstring \<Rightarrow> nat" where
  "read_decimal s = foldl (\<lambda>a d. 10 * a + (unat d - 48)) 0 s"

text \<open>
  The bytes of plain ASCII text: the printable ones, tab, line feed, carriage return.
\<close>

definition is_text_byte :: "8 word \<Rightarrow> bool" where
  "is_text_byte b = ((0x20 \<le> b \<and> b \<le> 0x7E) \<or> b = 0x09 \<or> b = 0x0A \<or> b = 0x0D)"

text \<open>
  Every listing of the tree is returned in the order of the sorted tree already.
\<close>

fun listings_in_tree_order :: "collector \<Rightarrow> fsnode \<Rightarrow> bool" where
  "listings_in_tree_order c (FileN name probe) = True"
| "listings_in_tree_order c (DirN name items) =
     (sortItems c items = Inr items \<and> list_all (listings_in_tree_order c) items)"
| "listings_in_tree_order c (NoListN name e) = True"
| "listings_in_tree_order c (NoStatN name e) = True"

text \<open>
  The manager answers, without throwing, for the relative path of every entry below
  the directory \<open>dirPath\<close>.
\<close>

fun ignores_answers :: "collector \<Rightarrow> jsstring \<Rightarrow> fsnode \<Rightarrow> bool" where
  "ignores_answers c dirPath (FileN name probe) = True"
| "ignores_answers c dirPath (DirN name items) =
     list_all (\<lambda>x. (case ignores c (path_relative (baseDir c) (path_join dirPath (nodeName x))) of
                      Inl e \<Rightarrow> False
                    | Inr b \<Rightarrow> True)
                   \<and> ignores_answers c (path_join dirPath (nodeName x)) x)
       items"
| "ignores_answers c dirPath (NoListN name e) = True"
| "ignores_answers c dirPath (NoStatN name e) = True"

text \<open>
  No entry of the tree makes \<open>fs.statSync\<close> throw, and no type probe of a file of the
  tree throws.
\<close>

fun reads_succeed :: "fsnode \<Rightarrow> bool" where
  "reads_succeed (FileN name probe) = (case probe of Inl e \<Rightarrow> False | Inr b \<Rightarrow> True)"
| "reads_succeed (DirN name items) = list_all reads_succeed items"
| "reads_succeed (NoListN name e) = True"
| "reads_succeed (NoStatN name e) = False"

section \<open>Sample inputs\<close>

text \<open>
  Reader environments: one in which every file holds \<open>bytes\<close>, is not binary, has the
  charset \<open>detected\<close> and decodes byte for byte; one in which reading throws.
\<close>

definition sample_env :: "buffer \<Rightarrow> jsstring option \<Rightarrow> reader_env" where
  "sample_env bytes detected =
     \<lparr>isBinaryFileSync = (\<lambda>_. Inr False),
      readFileSync = (\<lambda>_. Inr bytes),
      chardet_detect = (\<lambda>_. detected),
      iconv_decode = (\<lambda>b _. Inr (map ucast b))\<rparr>"

definition failing_env :: "exn \<Rightarrow> reader_env" where
  "failing_env e =
     \<lparr>isBinaryFileSync = (\<lambda>_. Inr False),
      readFileSync = (\<lambda>_. Inl e),
      chardet_detect = (\<lambda>_. None),
      iconv_decode = (\<lambda>b _. Inr (map ucast b))\<rparr>"

text \<open>
  A text entry.
\<close>

definition sample_file :: CollectedFile where
  "sample_file = \<lparr>path = lit ''/repo/a.txt'', type = Text, relativePath = lit ''a.txt''\<rparr>"

text \<open>
  A comparison by code units: what \<open>localeCompare\<close> gives for the lower-case ASCII
  names of the samples.
\<close>

fun code_unit_compare :: "jsstring \<Rightarrow> jsstring \<Rightarrow> int" where
  "code_unit_compare [] [] = 0"
| "code_unit_compare [] (y # ys) = - 1"
| "code_unit_compare (x # xs) [] = 1"
| "code_unit_compare (x # xs) (y # ys) =
     (if x < y then - 1 else if y < x then 1 else code_unit_compare xs ys)"

text \<open>
  Collectors on \<open>/repo\<close>.
\<close>

definition ascii_collector :: "bool \<Rightarrow> (jsstring \<Rightarrow> exn + bool) \<Rightarrow> collector" where
  "ascii_collector recursive ign =
     \<lparr>baseDir = lit ''/repo'', ignores = ign, isRecursive = recursive,
      localeCompare = code_unit_compare\<rparr>"

text \<open>
  Ignore managers: one that ignores only \<open>z.log\<close>; one that ignores nothing.
\<close>

definition ignore_z_log :: "jsstring \<Rightarrow> exn + bool" where
  "ignore_z_log p = Inr (p = lit ''z.log'')"

definition nothing_ignored :: "jsstring \<Rightarrow> exn + bool" where
  "nothing_ignored p = Inr False"

text \<open>
  A matcher for pattern lines that are plain names, negated or not: such a line
  matches the paths whose last segment is the name, which is what gitignore syntax
  gives for a pattern without separator, glob character or escape. And the manager
  with this matcher and a rule list.
\<close>

definition plain_name_matcher :: pattern_matcher where
  "plain_name_matcher line p =
     ((if negated line then tl line else line)
        = last (split_on slash (if p \<noteq> [] \<and> last p = slash then butlast p else p)))"

definition plain_name_manager :: "jsstring list \<Rightarrow> jsstring \<Rightarrow> exn + bool" where
  "plain_name_manager rules p = Inr (rules_ignore plain_name_matcher rules p)"

text \<open>
  Trees: a repository with its \<open>.git\<close>; a file listed before a directory; the same
  listed directories first; an unreadable file listed before a directory; a link
  without target listed between a file and a directory.
\<close>

definition git_tree :: fsnode where
  "git_tree = DirN (lit ''repo'') [DirN (lit ''.git'') [FileN (lit ''config'') (Inr False)]]"

definition unsorted_tree :: fsnode where
  "unsorted_tree =
     DirN (lit ''repo'')
       [FileN (lit ''a.txt'') (Inr False),
        DirN (lit ''sub'') [FileN (lit ''b.txt'') (Inr False)]]"

definition sorted_tree :: fsnode where
  "sorted_tree =
     DirN (lit ''repo'')
       [DirN (lit ''sub'') [FileN (lit ''b.txt'') (Inr False)],
        FileN (lit ''a.txt'') (Inr False)]"

definition locked_tree :: fsnode where
  "locked_tree =
     DirN (lit ''repo'')
       [FileN (lit ''a'')
          (Inl (ErrorObj (lit ''EACCES: permission denied, open '' @ [0x27] @ lit ''/repo/a''
                            @ [0x27]))),
        DirN (lit ''sub'') [FileN (lit ''b.txt'') (Inr False)]]"

definition dangling_tree :: fsnode where
  "dangling_tree =
     DirN (lit ''repo'')
       [FileN (lit ''a.txt'') (Inr False),
        NoStatN (lit ''link'')
          (ErrorObj (lit ''ENOENT: no such file or directory, stat '' @ [0x27]
                       @ lit ''/repo/link'' @ [0x27])),
        DirN (lit ''sub'') [FileN (lit ''b.txt'') (Inr False)]]"

section \<open>Lemmas\<close>

subsection \<open>Splitting and joining\<close>

lemma length_split_on: "length (split_on d s) = Suc (count_list s d)"
  by (induction s) (auto split: list.splits)

lemma split_on_not_Nil: "split_on d s \<noteq> []"
  by (induction s) (auto split: list.splits)

lemma join_split_on: "join_with d (split_on d s) = s"
proof (induction s)
  case Nil
  then show ?case by simp
next
  case (Cons c cs)
  obtain l ls where sp: "split_on d cs = l # ls"
    using split_on_not_Nil [of d cs] by (cases "split_on d cs") auto
  show ?case
  proof (cases "c = d")
    case True
    with Cons sp show ?thesis by simp
  next
    case False
    with Cons sp show ?thesis by (cases ls) auto
  qed
qed

subsection \<open>The double-precision comparison is the exact one\<close>

lemma bitlen_le: "n < 2 ^ k \<Longrightarrow> bitlen n \<le> k"
proof (induction k arbitrary: n)
  case 0
  then show ?case by (simp add: bitlen.simps)
next
  case (Suc k)
  then have "n div 2 < 2 ^ k" by auto
  then have "bitlen (n div 2) \<le> k" by (rule Suc.IH)
  then show ?case by (subst bitlen.simps) simp
qed

lemma round53_cases:
  "round53 p = p \<or> round53 p = (p div 2 ^ (bitlen p - 53)) * 2 ^ (bitlen p - 53)
     \<or> round53 p = (p div 2 ^ (bitlen p - 53) + 1) * 2 ^ (bitlen p - 53)"
  by (simp add: round53_def Let_def)

lemma round53_upper: "round53 p \<le> p + 2 ^ (bitlen p - 53)"
proof -
  define s where "s = bitlen p - 53"
  have a: "(p div 2 ^ s) * 2 ^ s \<le> p" by simp
  then have b: "(p div 2 ^ s + 1) * 2 ^ s \<le> p + 2 ^ s" by (simp add: algebra_simps)
  from a have c: "(p div 2 ^ s) * 2 ^ s \<le> p + 2 ^ s" by linarith
  from round53_cases [of p] b c show ?thesis
    unfolding s_def by (elim disjE) simp_all
qed

lemma round53_floor: "bitlen p > 53 \<Longrightarrow> (p div 2 ^ (bitlen p - 53)) * 2 ^ (bitlen p - 53) \<le> round53 p"
  by (simp add: round53_def Let_def)

lemma round53_lower:
  assumes "y * 2 ^ k \<le> p" and "bitlen p - 53 \<le> k"
  shows "y * 2 ^ k \<le> round53 p"
proof (cases "bitlen p \<le> 53")
  case True
  with assms show ?thesis by (simp add: round53_def)
next
  case False
  define s where "s = bitlen p - 53"
  have sk: "s \<le> k" using assms(2) by (simp add: s_def)
  have eq: "y * 2 ^ k = (y * 2 ^ (k - s)) * 2 ^ s"
    using sk by (simp add: power_add [symmetric])
  with assms(1) have "(y * 2 ^ (k - s)) * 2 ^ s \<le> p" by simp
  then have "y * 2 ^ (k - s) \<le> p div 2 ^ s"
    by (simp add: less_eq_div_iff_mult_less_eq)
  then have "(y * 2 ^ (k - s)) * 2 ^ s \<le> (p div 2 ^ s) * 2 ^ s"
    by (rule mult_le_mono1)
  then have low: "y * 2 ^ k \<le> (p div 2 ^ s) * 2 ^ s"
    by (simp only: eq)
  have "(p div 2 ^ s) * 2 ^ s \<le> round53 p"
    unfolding s_def using False by (intro round53_floor) simp
  with low show ?thesis by simp
qed

text \<open>
  Rounding at work: \<open>3 * 0.1\<close> is the double \<open>0.30000000000000004\<close>, whose numerator is
  one more than the exact product; and \<open>3 > 30 * 0.1\<close> is false, as \<open>30 * 0.1\<close> is
  the double \<open>3\<close>.
\<close>

lemma round53_three_tenths:
  "round53 (3 * tenth_mantissa) = 3 * tenth_mantissa + 1 \<and> \<not> js_gt_tenth 3 30"
  by (simp add: round53_def js_gt_tenth_def tenth_mantissa_def bitlen.simps Let_def)

lemma ten_tenth: "10 * (n * tenth_mantissa) = n * 2 ^ 55 + 2 * n"
proof -
  have "10 * tenth_mantissa = 2 ^ 55 + 2" by (simp add: tenth_mantissa_def)
  then have "n * (10 * tenth_mantissa) = n * (2 ^ 55 + 2)" by (rule arg_cong)
  then show ?thesis by (simp only: mult.assoc mult.left_commute [of 10 n] distrib_left mult.commute [of n 2])
qed

lemma tenth_product_bound:
  assumes "n < 2 ^ 32"
  shows "bitlen (n * tenth_mantissa) - 53 \<le> 31"
proof -
  have "tenth_mantissa < 2 ^ 52" by (simp add: tenth_mantissa_def)
  with assms have "n * tenth_mantissa < 2 ^ 32 * 2 ^ 52"
    by (intro mult_strict_mono) simp_all
  also have "(2::nat) ^ 32 * 2 ^ 52 = 2 ^ 84" by (simp only: power_add [symmetric]) simp
  finally have "bitlen (n * tenth_mantissa) \<le> 84" by (rule bitlen_le)
  then show ?thesis by simp
qed

lemma js_gt_tenth_exact:
  assumes "n < 2 ^ 32"
  shows "js_gt_tenth c n \<longleftrightarrow> n < 10 * c"
proof -
  define p where "p = n * tenth_mantissa"
  define K :: nat where "K = 2 ^ 55"
  have ten: "10 * p = n * K + 2 * n"
    unfolding p_def K_def by (rule ten_tenth)
  have s: "bitlen p - 53 \<le> 31"
    unfolding p_def using assms by (rule tenth_product_bound)
  have gt_def: "js_gt_tenth c n \<longleftrightarrow> round53 p < c * K"
    by (simp only: js_gt_tenth_def p_def K_def)
  show ?thesis
  proof
    assume gt: "js_gt_tenth c n"
    show "n < 10 * c"
    proof (rule ccontr)
      assume "\<not> n < 10 * c"
      then have "10 * c \<le> n" by simp
      then have "10 * c * K \<le> n * K" by (rule mult_le_mono1)
      with ten have "10 * (c * K) \<le> 10 * p" by linarith
      then have "c * 2 ^ 55 \<le> p" unfolding K_def by linarith
      moreover have "bitlen p - 53 \<le> 55" using s by linarith
      ultimately have "c * 2 ^ 55 \<le> round53 p" by (rule round53_lower)
      with gt show False unfolding gt_def K_def by linarith
    qed
  next
    assume "n < 10 * c"
    then have "n + 1 \<le> 10 * c" by simp
    then have "(n + 1) * K \<le> 10 * c * K" by (rule mult_le_mono1)
    then have up: "n * K + K \<le> 10 * (c * K)" by (simp add: algebra_simps)
    have "(2::nat) ^ (bitlen p - 53) \<le> 2 ^ 31"
      using s by (intro power_increasing) simp_all
    then have "round53 p \<le> p + 2 ^ 31"
      using round53_upper [of p] by linarith
    then have r: "10 * round53 p \<le> n * K + 2 * n + 10 * 2 ^ 31"
      using ten by linarith
    have "n < 4294967296" using assms by simp
    then have "2 * n + 10 * 2 ^ 31 < K" unfolding K_def by simp
    with r up have "10 * round53 p < 10 * (c * K)" by linarith
    then have "round53 p < c * K" by linarith
    then show "js_gt_tenth c n" by (simp only: gt_def)
  qed
qed

subsection \<open>The screen and plain text\<close>

lemma controlScreen_exact:
  assumes "length t < 2 ^ 32"
  shows "controlScreen t enc =
     (if length t < 10 * length (filter isControlChar t)
      then \<lparr>content = [],
            error = Some (lit ''File contains control characters (content not displayed)''),
            encoding = Some enc\<rparr>
      else \<lparr>content = t, error = None, encoding = Some enc\<rparr>)"
proof (cases "filter isControlChar t = []")
  case True
  then show ?thesis by (simp add: controlScreen_def)
next
  case False
  then show ?thesis
    using js_gt_tenth_exact [OF assms, of "length (filter isControlChar t)"]
    by (simp add: controlScreen_def Let_def)
qed

lemma uint_ucast_byte: "uint (ucast (b :: 8 word) :: 16 word) = uint b"
  by (rule uint_up_ucast) (simp add: is_up)

lemma ucast_byte_less: "(ucast (b :: 8 word) :: 16 word) < 0x100"
proof -
  have "uint b < 2 ^ 8" using uint_bounded [of b] by simp
  then show ?thesis by (simp add: word_less_def uint_ucast_byte)
qed

lemma stripBOM_ucast: "stripBOM (map ucast (bs :: 8 word list)) = map ucast bs"
proof (cases bs)
  case Nil
  then show ?thesis by simp
next
  case (Cons b rest)
  have "(ucast b :: 16 word) \<noteq> 0xFEFF" using ucast_byte_less [of b] by auto
  with Cons show ?thesis by simp
qed

lemma text_byte_not_control:
  assumes "is_text_byte b"
  shows "\<not> isControlChar (ucast b)"
proof -
  from assms have "(32 \<le> uint b \<and> uint b \<le> 126) \<or> uint b = 9 \<or> uint b = 10 \<or> uint b = 13"
    by (auto simp: is_text_byte_def word_le_def)
  then show ?thesis
    by (auto simp: isControlChar_def word_le_def uint_ucast_byte)
qed

lemma text_bytes_no_control:
  "list_all is_text_byte bytes \<Longrightarrow> filter isControlChar (map ucast bytes) = []"
  by (induction bytes) (simp_all add: text_byte_not_control)

lemma split_on_no_sep: "d \<notin> set s \<Longrightarrow> split_on d s = [s]"
  by (induction s) auto

lemma split_on_replicate_sep: "split_on d (replicate k d) = replicate (Suc k) []"
  by (induction k) auto

lemma replaceAll_id: "c \<notin> set s \<Longrightarrow> replaceAll c rep s = s"
  by (induction s) (auto simp: replaceAll_def)

lemma escapeHTML_plain:
  assumes "0x26 \<notin> set s" "0x3C \<notin> set s" "0x3E \<notin> set s" "0x22 \<notin> set s" "0x27 \<notin> set s"
  shows "escapeHTML s = s"
  using assms by (simp add: escapeHTML_def replaceAll_id)

lemma lineHTML_short:
  \<open>length l \<le> 300 \<Longrightarrow>
     lineHTML k l = lit ''<span class="file-content-line"><span class="line-number">'' @ show_nat k
       @ lit ''</span>'' @ escapeHTML l @ lit ''</span>'' @ [newline]\<close>
  by (simp add: lineHTML_def displayLine_def maxLineLength_def)

lemma linesHTML_short:
  \<open>list_all (\<lambda>l. length l \<le> 300) ls \<Longrightarrow>
     linesHTML i ls =
       concat (map2 (\<lambda>k l. lit ''<span class="file-content-line"><span class="line-number">''
                       @ show_nat k @ lit ''</span>'' @ escapeHTML l @ lit ''</span>'' @ [newline])
                 [Suc i..<Suc i + length ls] ls)\<close>
proof (induction ls arbitrary: i)
  case Nil
  then show ?case by simp
next
  case (Cons l ls)
  have "[Suc i..<Suc i + length (l # ls)] = Suc i # [Suc (Suc i)..<Suc (Suc i) + length ls]"
    by (simp add: upt_rec)
  then show ?case using Cons.IH [of "Suc i"] Cons.prems by (simp add: lineHTML_short)
qed

lemma sample_content:
  assumes "list_all is_text_byte bytes"
  shows "getFileContent (sample_env bytes None) p =
           \<lparr>content = map ucast bytes, error = None, encoding = Some (lit ''utf8'')\<rparr>"
  using text_bytes_no_control [OF assms]
  by (simp add: getFileContent_def getFileContent_try_def controlScreen_def stripBOM_ucast
      sample_env_def encoding_or_default_def)

lemma encoding_or_default_not_Nil: "encoding_or_default d \<noteq> []"
  by (simp add: encoding_or_default_def lit_def split: option.splits)

lemma error_empty_content:
  "truthy (error (getFileContent env p)) \<Longrightarrow> content (getFileContent env p) = []"
  by (auto simp: getFileContent_def getFileContent_try_def controlScreen_def Let_def
      split: sum.splits bool.splits if_splits)

subsection \<open>Decimal numbers\<close>

lemma unat_digit: "d < 10 \<Longrightarrow> unat (of_nat (48 + d) :: 16 word) = 48 + d"
  by (simp only: unat_of_nat) simp

lemma read_decimal_snoc: "read_decimal (s @ [d]) = 10 * read_decimal s + (unat d - 48)"
  by (simp add: read_decimal_def)

lemma read_show_nat: "read_decimal (show_nat n) = n"
proof (induction n rule: show_nat.induct)
  case (1 n)
  show ?case
  proof (cases "n < 10")
    case True
    then show ?thesis
      by (subst show_nat.simps) (simp add: read_decimal_def unat_digit del: of_nat_add)
  next
    case False
    have m: "n mod 10 < 10" by simp
    from False 1 have "read_decimal (show_nat (n div 10)) = n div 10" by simp
    with False show ?thesis
      by (subst show_nat.simps) (simp add: read_decimal_snoc unat_digit [OF m] del: of_nat_add)
  qed
qed

lemma is_digit_of_nat: "d < 10 \<Longrightarrow> is_digit (of_nat (48 + d))"
proof -
  assume d: "d < 10"
  have "48 \<le> unat (of_nat (48 + d) :: 16 word) \<and> unat (of_nat (48 + d) :: 16 word) \<le> 57"
    using d by (simp only: unat_digit [OF d]) simp
  then show ?thesis by (simp add: is_digit_def word_le_nat_alt del: of_nat_add)
qed

lemma show_nat_digits: "list_all is_digit (show_nat n)"
proof (induction n rule: show_nat.induct)
  case (1 n)
  show ?case
  proof (cases "n < 10")
    case True
    then show ?thesis by (subst show_nat.simps) (simp add: is_digit_of_nat del: of_nat_add)
  next
    case False
    have m: "n mod 10 < 10" by simp
    from False 1 have "list_all is_digit (show_nat (n div 10))" by simp
    with False show ?thesis
      by (subst show_nat.simps) (simp add: is_digit_of_nat [OF m] del: of_nat_add)
  qed
qed

subsection \<open>The rows carry the lines of the tree\<close>

lemma rows_lines:
  "apsnd (map fst) (tree_entry_rows c d p k n i x) = tree_entry c d p k n i x"
  "apsnd (map fst) (tree_entries_rows c d p k n i xs) = tree_entries c d p k n i xs"
  "map fst (buildTreeRows c d p k node) = buildTree c d p k node"
proof (induction c d p k n i x and c d p k n i xs and c d p k node
    rule: tree_entry_tree_entries_buildTree.induct)
  case (1 c currentDir prefix depth n index item)
  show ?case
  proof (cases "isDirectory item")
    case (Inl e)
    then show ?thesis
      by (simp add: tree_entry.simps [of c currentDir prefix depth n index item]
          tree_entry_rows.simps [of c currentDir prefix depth n index item])
  next
    case (Inr isDir)
    show ?thesis
    proof (cases "ignores c (path_relative (baseDir c) (path_join currentDir (nodeName item)))")
      case (Inl e)
      with Inr show ?thesis
        by (simp add: tree_entry.simps [of c currentDir prefix depth n index item]
            tree_entry_rows.simps [of c currentDir prefix depth n index item])
    next
      case ig: (Inr b)
      show ?thesis
      proof (cases b)
        case True
        with Inr ig show ?thesis
          by (simp add: tree_entry.simps [of c currentDir prefix depth n index item]
              tree_entry_rows.simps [of c currentDir prefix depth n index item])
      next
        case False
        have "map fst (buildTreeRows c (path_join currentDir (nodeName item))
                 (prefix @ (if int index = int n - 1 then lastIndent else midIndent)) (depth + 1) item)
              = buildTree c (path_join currentDir (nodeName item))
                 (prefix @ (if int index = int n - 1 then lastIndent else midIndent)) (depth + 1) item"
          if "isDir" "isRecursive c"
          using Inr ig False that by (intro "1.IH") simp_all
        with Inr ig False show ?thesis
          by (simp add: tree_entry.simps [of c currentDir prefix depth n index item]
              tree_entry_rows.simps [of c currentDir prefix depth n index item] Let_def)
      qed
    qed
  qed
next
  case (2 c currentDir prefix depth n index)
  then show ?case by simp
next
  case (3 c currentDir prefix depth n index x xs)
  obtain r ls where e: "tree_entry_rows c currentDir prefix depth n index x = (r, ls)"
    by (cases "tree_entry_rows c currentDir prefix depth n index x")
  from "3.IH"(1) e have t: "tree_entry c currentDir prefix depth n index x = (r, map fst ls)"
    by simp
  show ?case
  proof (cases r)
    case None
    obtain r' ms where g: "tree_entries_rows c currentDir prefix depth n (index + 1) xs = (r', ms)"
      by (cases "tree_entries_rows c currentDir prefix depth n (index + 1) xs")
    have "apsnd (map fst) (tree_entries_rows c currentDir prefix depth n (index + 1) xs)
            = tree_entries c currentDir prefix depth n (index + 1) xs"
      using t None by (intro "3.IH"(2)) simp_all
    with g have "tree_entries c currentDir prefix depth n (index + 1) xs = (r', map fst ms)"
      by simp
    with e t None g show ?thesis by simp
  next
    case (Some ex)
    with e t show ?thesis by simp
  qed
next
  case (4 c currentDir prefix depth node)
  show ?case
  proof (cases "0 < depth \<and> \<not> isRecursive c")
    case True
    then show ?thesis
      by (simp add: buildTree.simps [of c currentDir prefix depth node]
          buildTreeRows.simps [of c currentDir prefix depth node])
  next
    case guard: False
    show ?thesis
    proof (cases "readdirSync currentDir node")
      case (Inl e)
      with guard show ?thesis
        by (simp add: buildTree.simps [of c currentDir prefix depth node]
            buildTreeRows.simps [of c currentDir prefix depth node])
    next
      case rd: (Inr items)
      show ?thesis
      proof (cases "sortItems c items")
        case (Inl e)
        with guard rd show ?thesis
          by (simp add: buildTree.simps [of c currentDir prefix depth node]
              buildTreeRows.simps [of c currentDir prefix depth node])
      next
        case srt: (Inr sortedItems)
        obtain r ls where e:
          "tree_entries_rows c currentDir prefix depth (length sortedItems) 0 sortedItems = (r, ls)"
          by (cases "tree_entries_rows c currentDir prefix depth (length sortedItems) 0 sortedItems")
        have "apsnd (map fst)
                (tree_entries_rows c currentDir prefix depth (length sortedItems) 0 sortedItems)
              = tree_entries c currentDir prefix depth (length sortedItems) 0 sortedItems"
          using guard rd srt by (intro "4.IH") simp_all
        with e have t:
          "tree_entries c currentDir prefix depth (length sortedItems) 0 sortedItems = (r, map fst ls)"
          by simp
        from guard rd srt e t show ?thesis
          by (cases r)
            (auto simp: buildTree.simps [of c currentDir prefix depth node]
              buildTreeRows.simps [of c currentDir prefix depth node])
      qed
    qed
  qed
qed


subsection \<open>One step of the collector and of the rows\<close>

lemma detect_ok:
  "detectFileType p (Inr b) =
     Inr (if toLowerCase (extname p) \<in> set imageExts then Image
          else if b then Binary else Text)"
  by (simp add: detectFileType_def)

lemma collect_entry_ignored:
  "ignores c (path_relative (baseDir c) (path_join d (nodeName x))) = Inr True \<Longrightarrow>
     collect_entry c d x = (None, [])"
  by (simp add: collect_entry.simps)

lemma collect_entry_File:
  "ignores c (path_relative (baseDir c) (path_join d name)) = Inr False \<Longrightarrow>
     collect_entry c d (FileN name probe) =
       (case detectFileType (path_join d name) probe of
          Inl e \<Rightarrow> (Some e, [])
        | Inr t \<Rightarrow> (None, [\<lparr>path = path_join d name, type = t,
                            relativePath = path_relative (baseDir c) (path_join d name)\<rparr>]))"
  by (simp add: collect_entry.simps Let_def)

lemma collect_entry_directory:
  "ignores c (path_relative (baseDir c) (path_join d (nodeName x))) = Inr False \<Longrightarrow>
   isDirectory x = Inr True \<Longrightarrow>
     collect_entry c d x =
       (None, if isRecursive c then collectFilesRecursive c (path_join d (nodeName x)) x else [])"
  by (simp add: collect_entry.simps)

lemma tree_entry_rows_ignored:
  "isDirectory x = Inr b \<Longrightarrow>
   ignores c (path_relative (baseDir c) (path_join d (nodeName x))) = Inr True \<Longrightarrow>
     tree_entry_rows c d p k n i x = (None, [])"
  by (simp add: tree_entry_rows.simps)

lemma tree_entry_rows_File:
  "ignores c (path_relative (baseDir c) (path_join d name)) = Inr False \<Longrightarrow>
     tree_entry_rows c d p k n i (FileN name probe) =
       (None, [(p @ (if int i = int n - 1 then lastConnector else midConnector) @ name,
                FileRow (path_relative (baseDir c) (path_join d name)))])"
  by (simp add: tree_entry_rows.simps)

lemma tree_entry_rows_directory:
  "ignores c (path_relative (baseDir c) (path_join d (nodeName x))) = Inr False \<Longrightarrow>
   isDirectory x = Inr True \<Longrightarrow>
     tree_entry_rows c d p k n i x =
       (None,
        (p @ (if int i = int n - 1 then lastConnector else midConnector) @ nodeName x @ [slash],
         DirRow (path_relative (baseDir c) (path_join d (nodeName x))))
        # (if isRecursive c
           then buildTreeRows c (path_join d (nodeName x))
                  (p @ (if int i = int n - 1 then lastIndent else midIndent)) (k + 1) x
           else []))"
  by (simp add: tree_entry_rows.simps Let_def)

lemma collectFilesRecursive_Dir:
  "collectFilesRecursive c d (DirN name items) = snd (collect_entries c d items)"
  by (simp add: collectFilesRecursive.simps readdirSync_def)

lemma collectFilesRecursive_NoList: "collectFilesRecursive c d (NoListN name e) = []"
  by (simp add: collectFilesRecursive.simps readdirSync_def)

lemma collectFilesRecursive_File: "collectFilesRecursive c d (FileN name probe) = []"
  by (simp add: collectFilesRecursive.simps readdirSync_def)

lemma buildTreeRows_Dir:
  "sortItems c items = Inr sortedItems \<Longrightarrow>
     buildTreeRows c d p k (DirN name items) =
       (if 0 < k \<and> \<not> isRecursive c then []
        else (case tree_entries_rows c d p k (length sortedItems) 0 sortedItems of
                (None, ls) \<Rightarrow> ls
              | (Some e, ls) \<Rightarrow> ls @ [(p @ lit ''Error: '' @ errorMessage e, ErrorRow)]))"
  by (simp add: buildTreeRows.simps readdirSync_def)

lemma buildTreeRows_NoList:
  "buildTreeRows c d p k (NoListN name e) =
     (if 0 < k \<and> \<not> isRecursive c then []
      else [(p @ lit ''Error: '' @ errorMessage e, ErrorRow)])"
  by (simp add: buildTreeRows.simps readdirSync_def)

lemma buildTreeRows_File:
  "List.map_filter row_file (buildTreeRows c d p k (FileN name probe)) = []"
  by (simp add: buildTreeRows.simps readdirSync_def map_filter_simps)

lemma map_filter_append: "List.map_filter f (xs @ ys) = List.map_filter f xs @ List.map_filter f ys"
  by (simp add: map_filter_def)

lemma answers_cases:
  "(case r of Inl e \<Rightarrow> False | Inr b \<Rightarrow> True) \<Longrightarrow> \<exists>b. r = Inr b"
  by (cases r) simp_all

lemma order_agree:
  "(case ignores c (path_relative (baseDir c) (path_join d (nodeName x))) of
      Inl e \<Rightarrow> False | Inr b \<Rightarrow> True) \<Longrightarrow>
   ignores_answers c (path_join d (nodeName x)) x \<Longrightarrow>
   listings_in_tree_order c x \<Longrightarrow> reads_succeed x \<Longrightarrow>
     fst (collect_entry c d x) = None \<and> fst (tree_entry_rows c d p k n i x) = None
     \<and> map relativePath (snd (collect_entry c d x))
         = List.map_filter row_file (snd (tree_entry_rows c d p k n i x))"
  "list_all (\<lambda>x. (case ignores c (path_relative (baseDir c) (path_join d (nodeName x))) of
                     Inl e \<Rightarrow> False | Inr b \<Rightarrow> True)
                  \<and> ignores_answers c (path_join d (nodeName x)) x) xs \<Longrightarrow>
   list_all (listings_in_tree_order c) xs \<Longrightarrow> list_all reads_succeed xs \<Longrightarrow>
     fst (collect_entries c d xs) = None \<and> fst (tree_entries_rows c d p k n i xs) = None
     \<and> map relativePath (snd (collect_entries c d xs))
         = List.map_filter row_file (snd (tree_entries_rows c d p k n i xs))"
  "ignores_answers c d node \<Longrightarrow> listings_in_tree_order c node \<Longrightarrow> reads_succeed node \<Longrightarrow>
   k = 0 \<or> isRecursive c \<Longrightarrow>
     map relativePath (collectFilesRecursive c d node)
       = List.map_filter row_file (buildTreeRows c d p k node)"
proof (induction c d x and c d xs and c d node arbitrary: p k n i and p k n i and p k
    rule: collect_entry_collect_entries_collectFilesRecursive.induct)
  case (1 c dirPath node)
  let ?rel = "path_relative (baseDir c) (path_join dirPath (nodeName node))"
  from "1.prems"(1) obtain ign where igr: "ignores c ?rel = Inr ign"
    using answers_cases by blast
  show ?case
  proof (cases ign)
    case True
    with igr have t: "ignores c ?rel = Inr True" by simp
    from "1.prems"(4) have "\<exists>b. isDirectory node = Inr b" by (cases node) auto
    then obtain b where "isDirectory node = Inr b" by blast
    with t show ?thesis
      by (simp add: collect_entry_ignored tree_entry_rows_ignored map_filter_simps)
  next
    case False
    with igr have ni: "ignores c ?rel = Inr False" by simp
    show ?thesis
    proof (cases node)
      case (FileN name probe)
      from "1.prems"(4) obtain b where "probe = Inr b" unfolding FileN by (cases probe) simp_all
      with ni show ?thesis
        unfolding FileN
        by (simp add: collect_entry_File tree_entry_rows_File detect_ok map_filter_simps)
    next
      case (DirN name items)
      have d: "isDirectory node = Inr True" using DirN by simp
      show ?thesis
      proof (cases "isRecursive c")
        case True
        have "map relativePath (collectFilesRecursive c (path_join dirPath (nodeName node)) node)
              = List.map_filter row_file (buildTreeRows c (path_join dirPath (nodeName node))
                   (p @ (if int i = int n - 1 then lastIndent else midIndent)) (k + 1) node)"
          using ni d True "1.prems"(2,3,4) by (intro "1.IH") auto
        with True show ?thesis
          by (simp add: collect_entry_directory [OF ni d] tree_entry_rows_directory [OF ni d]
              map_filter_simps)
      next
        case False
        then show ?thesis
          by (simp add: collect_entry_directory [OF ni d] tree_entry_rows_directory [OF ni d]
              map_filter_simps)
      qed
    next
      case (NoListN name e)
      have d: "isDirectory node = Inr True" using NoListN by simp
      show ?thesis
        unfolding collect_entry_directory [OF ni d] tree_entry_rows_directory [OF ni d]
        unfolding NoListN
        by (simp add: collectFilesRecursive_NoList buildTreeRows_NoList map_filter_simps)
    next
      case (NoStatN name e)
      with "1.prems"(4) show ?thesis by simp
    qed
  qed
next
  case (2 c dirPath)
  then show ?case by (simp add: map_filter_simps)
next
  case (3 c dirPath x xs)
  from "3.prems" have x: "case ignores c (path_relative (baseDir c) (path_join dirPath (nodeName x))) of
      Inl e \<Rightarrow> False | Inr b \<Rightarrow> True"
    "ignores_answers c (path_join dirPath (nodeName x)) x"
    "listings_in_tree_order c x" "reads_succeed x"
    and xs: "list_all (\<lambda>x. (case ignores c (path_relative (baseDir c) (path_join dirPath (nodeName x))) of
                     Inl e \<Rightarrow> False | Inr b \<Rightarrow> True)
                  \<and> ignores_answers c (path_join dirPath (nodeName x)) x) xs"
      "list_all (listings_in_tree_order c) xs" "list_all reads_succeed xs"
    by simp_all
  note h1 = "3.IH"(1) [OF x, of p k n i]
  then obtain fs where e: "collect_entry c dirPath x = (None, fs)"
    by (cases "collect_entry c dirPath x") auto
  from h1 obtain ls where t: "tree_entry_rows c dirPath p k n i x = (None, ls)"
    by (cases "tree_entry_rows c dirPath p k n i x") auto
  have h2: "fst (collect_entries c dirPath xs) = None
      \<and> fst (tree_entries_rows c dirPath p k n (i + 1) xs) = None
      \<and> map relativePath (snd (collect_entries c dirPath xs)) =
        List.map_filter row_file (snd (tree_entries_rows c dirPath p k n (i + 1) xs))"
    using e xs by (intro "3.IH"(2)) simp_all
  obtain r gs where g: "collect_entries c dirPath xs = (r, gs)"
    by (cases "collect_entries c dirPath xs") auto
  obtain r' ms where m: "tree_entries_rows c dirPath p k n (i + 1) xs = (r', ms)"
    by (cases "tree_entries_rows c dirPath p k n (i + 1) xs") auto
  from h1 h2 show ?case
    by (simp add: e t g m [simplified] map_filter_append)
next
  case (4 c dirPath node)
  show ?case
  proof (cases node)
    case (FileN name probe)
    then show ?thesis
      by (simp add: collectFilesRecursive_File buildTreeRows_File)
  next
    case (DirN name items)
    with "4.prems" have s: "sortItems c items = Inr items"
      and items: "list_all (\<lambda>x. (case ignores c (path_relative (baseDir c) (path_join dirPath (nodeName x))) of
                     Inl e \<Rightarrow> False | Inr b \<Rightarrow> True)
                  \<and> ignores_answers c (path_join dirPath (nodeName x)) x) items"
        "list_all (listings_in_tree_order c) items" "list_all reads_succeed items"
      by simp_all
    have r: "readdirSync dirPath node = Inr items" using DirN by (simp add: readdirSync_def)
    have h: "fst (collect_entries c dirPath items) = None
      \<and> fst (tree_entries_rows c dirPath p k (length items) 0 items) = None
      \<and> map relativePath (snd (collect_entries c dirPath items)) =
        List.map_filter row_file (snd (tree_entries_rows c dirPath p k (length items) 0 items))"
      using r items by (intro "4.IH") simp_all
    obtain ms where m: "tree_entries_rows c dirPath p k (length items) 0 items = (None, ms)"
      using h by (cases "tree_entries_rows c dirPath p k (length items) 0 items") auto
    from h m "4.prems"(4) show ?thesis
      unfolding DirN collectFilesRecursive_Dir buildTreeRows_Dir [OF s] by auto
  next
    case (NoListN name e)
    with "4.prems"(4) show ?thesis
      by (auto simp: collectFilesRecursive_NoList buildTreeRows_NoList map_filter_simps)
  next
    case (NoStatN name e)
    with "4.prems"(3) show ?thesis by simp
  qed
qed

subsection \<open>Counts\<close>

lemma counts_partition: "textCount fs + imageCount fs + binaryCount fs = length fs"
proof (induction fs)
  case Nil
  then show ?case by (simp add: textCount_def imageCount_def binaryCount_def)
next
  case (Cons f fs)
  then show ?case
    by (cases "type f") (simp_all add: textCount_def imageCount_def binaryCount_def)
qed

lemma types_exhaustive: "list_all (\<lambda>f. type f = Text \<or> type f = Image \<or> type f = Binary) fs"
proof (induction fs)
  case Nil
  then show ?case by simp
next
  case (Cons f fs)
  then show ?case by (cases "type f") simp_all
qed

subsection \<open>The rule set of the manager\<close>

lemma path_relative_join: "path_relative base (path_join base name) = name"
  by (simp add: path_relative_def path_join_def)

lemma split_lines_git: "split_lines (lit ''.git'') = [lit ''.git'']"
  by (simp add: lit_def)

lemma manager_rules:
  assumes "newIgnoreRulesManager gitignore extraIgnores = Inr rules"
  shows "rules = lit ''.git''
           # (case gitignore of
                Some (Inr gitignoreContent) \<Rightarrow> split_lines gitignoreContent
              | _ \<Rightarrow> [])
           @ extraIgnores"
proof -
  have e: "(if extraIgnores \<noteq> [] then add_patterns ig extraIgnores else ig) = ig @ extraIgnores"
    for ig by (cases extraIgnores) (simp_all add: add_patterns_def)
  show ?thesis
  proof (cases gitignore)
    case None
    with assms show ?thesis
      by (simp add: newIgnoreRulesManager_def Let_def e add_text_def add_patterns_def
          split_lines_git)
  next
    case (Some g)
    show ?thesis
    proof (cases g)
      case (Inl err)
      with Some assms show ?thesis by (simp add: newIgnoreRulesManager_def Let_def)
    next
      case (Inr body0)
      with Some assms show ?thesis
        by (simp add: newIgnoreRulesManager_def Let_def e add_text_def add_patterns_def
            split_lines_git)
    qed
  qed
qed

lemma last_match_decides:
  "test_rules matches rules p =
     (case List.find (\<lambda>line. matches line p) (rev rules) of
        None \<Rightarrow> False
      | Some line \<Rightarrow> \<not> negated line)"
proof (induction rules rule: rev_induct)
  case Nil
  then show ?case by (simp add: test_rules_def)
next
  case (snoc x xs)
  then show ?case by (simp add: test_rules_def verdict_step_def)
qed

lemma find_append_cases:
  "List.find P (xs @ ys) = (case List.find P xs of None \<Rightarrow> List.find P ys | Some x \<Rightarrow> Some x)"
  by (induction xs) simp_all

lemma not_negated_git: "\<not> negated (lit ''.git'')"
  by (simp add: negated_def lit_def)

lemma git_verdict:
  assumes "matches (lit ''.git'') (lit ''.git'')"
  shows "test_rules matches (lit ''.git'' # patterns) (lit ''.git'')
           = (\<not> (case List.find (\<lambda>line. matches line (lit ''.git'')) (rev patterns) of
                    None \<Rightarrow> False
                  | Some line \<Rightarrow> negated line))"
  using assms
  by (simp add: last_match_decides find_append_cases not_negated_git split: option.splits)

lemma rules_ignore_git:
  "rules_ignore matches rules (lit ''.git'') = test_rules matches rules (lit ''.git'')"
proof -
  have "split_on slash (lit ''.git'') = [lit ''.git'']"
    by (rule split_on_no_sep) (simp add: lit_def slash_def)
  then show ?thesis by (simp add: rules_ignore_def lit_def)
qed

subsection \<open>Evaluation of the samples\<close>

lemmas eval_defs = getDirectoryStructure_def collectFiles_def ascii_collector_def
  buildTree.simps tree_entry.simps collect_entry.simps collectFilesRecursive.simps
  readdirSync_def sortItems_def compareItems_def basename_def path_join_def
  path_relative_def detectFileType_def extname_def toLowerCase_def imageExts_def
  slash_def dot_def lit_def Let_def

lemmas rule_defs = rules_ignore_def test_rules_def verdict_step_def negated_def
  plain_name_matcher_def plain_name_manager_def newIgnoreRulesManager_def add_text_def
  add_patterns_def slash_def lit_def

subsection \<open>Listings\<close>

lemma collect_entries_complete:
  "fst (collect_entries c d xs) = None \<Longrightarrow>
     snd (collect_entries c d xs) = concat (map (\<lambda>x. snd (collect_entry c d x)) xs)"
proof (induction xs)
  case Nil
  then show ?case by simp
next
  case (Cons x xs)
  obtain r fs where e: "collect_entry c d x = (r, fs)" by (cases "collect_entry c d x")
  obtain r' gs where g: "collect_entries c d xs = (r', gs)" by (cases "collect_entries c d xs")
  from Cons.prems e g have "r = None" "r' = None" by (auto split: option.splits)
  with Cons.IH e g show ?case by simp
qed

lemma collect_entry_paths:
  assumes "ignores c (path_relative (baseDir c) (path_join d (nodeName x))) = Inr ign"
    and "reads_succeed x"
  shows "fst (collect_entry c d x) = None
     \<and> map relativePath (snd (collect_entry c d x)) =
         (if ign then []
          else (case x of
                  FileN name probe \<Rightarrow> [path_relative (baseDir c) (path_join d name)]
                | DirN name items \<Rightarrow>
                    if isRecursive c
                    then map relativePath (collectFilesRecursive c (path_join d name) x)
                    else []
                | _ \<Rightarrow> []))"
proof (cases ign)
  case True
  with assms(1) show ?thesis by (simp add: collect_entry_ignored)
next
  case False
  with assms(1) have ni: "ignores c (path_relative (baseDir c) (path_join d (nodeName x))) = Inr False"
    by simp
  show ?thesis
  proof (cases x)
    case (FileN name probe)
    from assms(2) obtain b where "probe = Inr b" unfolding FileN by (cases probe) simp_all
    with ni False show ?thesis
      unfolding FileN by (simp add: collect_entry_File detect_ok)
  next
    case (DirN name items)
    have "isDirectory x = Inr True" using DirN by simp
    from collect_entry_directory [OF ni this] False DirN show ?thesis by simp
  next
    case (NoListN name e)
    have "isDirectory x = Inr True" using NoListN by simp
    from collect_entry_directory [OF ni this] False NoListN show ?thesis
      by (simp add: collectFilesRecursive_NoList)
  next
    case (NoStatN name e)
    with assms(2) show ?thesis by simp
  qed
qed

lemma collect_entries_ok:
  "list_all (\<lambda>x. case ignores c (path_relative (baseDir c) (path_join d (nodeName x))) of
                    Inl e \<Rightarrow> False | Inr b \<Rightarrow> True) xs \<Longrightarrow>
   list_all reads_succeed xs \<Longrightarrow> fst (collect_entries c d xs) = None"
proof (induction xs)
  case Nil
  then show ?case by simp
next
  case (Cons x xs)
  from Cons.prems(1) obtain ign
    where "ignores c (path_relative (baseDir c) (path_join d (nodeName x))) = Inr ign"
    using answers_cases by fastforce
  then have "fst (collect_entry c d x) = None"
    using collect_entry_paths [of c d x ign] Cons.prems(2) by simp
  moreover have "fst (collect_entries c d xs) = None" using Cons by simp
  ultimately show ?case by (auto split: prod.splits option.splits)
qed

lemma linesHTML_spelled:
  \<open>linesHTML i ls =
     concat (map2 (\<lambda>k l. lit ''<span class="file-content-line"><span class="line-number">''
                     @ show_nat k @ lit ''</span>''
                     @ escapeHTML (if 300 < length l then take 300 l @ lit ''...'' else l)
                     @ lit ''</span>'' @ [0x0A])
               [Suc i..<Suc i + length ls] ls)\<close>
proof (induction ls arbitrary: i)
  case Nil
  then show ?case by simp
next
  case (Cons l ls)
  have "[Suc i..<Suc i + length (l # ls)] = Suc i # [Suc (Suc i)..<Suc (Suc i) + length ls]"
    by (simp add: upt_rec)
  then show ?case
    using Cons.IH [of "Suc i"]
    by (simp add: lineHTML_def displayLine_def maxLineLength_def newline_def)
qed

lemma map2_replicate: "map2 f xs (replicate (length xs) y) = map (\<lambda>x. f x y) xs"
  by (induction xs) simp_all

lemma generateFileContentsHTML_concat:
  "generateFileContentsHTML env imageHTML files = concat (map (fileSectionHTML env imageHTML) files)"
  by (induction files) simp_all

section \<open>The claims\<close>

text \<open>
  C1. When the decoded content of the reader's result splits into \<open>n\<close> lines with
  \<open>n > 500\<close>, the text section is the encoding note, \<open><pre>\<close>, the first 500 lines
  in order, then two line feeds and the marker \<open>... (k more lines)\<close>, where \<open>k\<close> is
  \<open>n - 500\<close> in decimal digits, and \<open></pre>\<close>. When \<open>n \<le> 500\<close> the section is the
  error notice, if the reader reports an error, and otherwise the encoding note and
  every line between \<open><pre>\<close> and \<open></pre>\<close>: no marker. Each line is shown with its
  number, counted from 1, HTML-escaped, and cut to its first 300 code units followed
  by \<open>...\<close> when it is longer.
\<close>

theorem C1_line_cap:
  assumes "getFileContent env (path file) = r"
    and "split_on 0x0A (content r) = contentLines"
    and "length contentLines = n"
  shows \<open>let encodingNote =
               (case encoding r of
                  None \<Rightarrow> []
                | Some e \<Rightarrow>
                    if e = [] then []
                    else lit ''<div class="encoding-info">Encoding: '' @ e @ lit ''</div>'');
             rendered =
               (\<lambda>k l. lit ''<span class="file-content-line"><span class="line-number">''
                  @ show_nat k @ lit ''</span>''
                  @ escapeHTML (if 300 < length l then take 300 l @ lit ''...'' else l)
                  @ lit ''</span>'' @ [0x0A]);
             allLines =
               encodingNote @ lit ''<pre>''
                 @ concat (map2 rendered [1..<Suc n] contentLines) @ lit ''</pre>''
         in (500 < n \<longrightarrow>
               generateTextFileHTML env file =
                 encodingNote @ lit ''<pre>''
                   @ concat (map2 rendered [1..<501] (take 500 contentLines))
                   @ [0x0A, 0x0A] @ lit ''... ('' @ show_nat (n - 500) @ lit '' more lines)''
                   @ lit ''</pre>''
               \<and> length (take 500 contentLines) = 500
               \<and> list_all is_digit (show_nat (n - 500))
               \<and> read_decimal (show_nat (n - 500)) = n - 500)
          \<and> (n \<le> 500 \<longrightarrow>
               generateTextFileHTML env file =
                 (case error r of
                    None \<Rightarrow> allLines
                  | Some msg \<Rightarrow>
                      if msg = [] then allLines
                      else lit ''<p class="binary-notice">'' @ escapeHTML msg @ lit ''</p>''))\<close>
proof -
  have big: "\<not> truthy (error r)" if "500 < n"
  proof
    assume "truthy (error r)"
    then have "content r = []" using error_empty_content [of env "path file"] assms(1) by simp
    with assms(2,3) that show False by auto
  qed
  have nl: "split_on newline (content r) = contentLines"
    using assms(2) by (simp add: newline_def)
  have up500: "[Suc 0..<Suc 0 + length (take 500 contentLines)] = [1..<501]" if "500 < n"
    using that assms(3) by (simp add: min_def)
  have upn: "[Suc 0..<Suc 0 + length contentLines] = [1..<Suc n]"
    using assms(3) by simp
  have enc: \<open>encodingInfo (encoding r) =
      (case encoding r of
         None \<Rightarrow> []
       | Some e \<Rightarrow>
           if e = [] then []
           else lit ''<div class="encoding-info">Encoding: '' @ e @ lit ''</div>'')\<close>
    by (simp add: encodingInfo_def split: option.splits)
  have 1: \<open>generateTextFileHTML env file =
             encodingInfo (encoding r) @ lit ''<pre>''
               @ linesHTML 0 (take 500 contentLines)
               @ [0x0A, 0x0A] @ lit ''... ('' @ show_nat (n - 500) @ lit '' more lines)''
               @ lit ''</pre>''\<close> if "500 < n"
    using big [OF that] that assms(1,3) nl
    by (auto simp: generateTextFileHTML_def displayLines_def maxLines_def Let_def
        omissionMarker_def newline_def)
  have 2: \<open>generateTextFileHTML env file =
             (case error r of
                None \<Rightarrow> encodingInfo (encoding r) @ lit ''<pre>''
                          @ linesHTML 0 contentLines @ lit ''</pre>''
              | Some msg \<Rightarrow>
                  if msg = []
                  then encodingInfo (encoding r) @ lit ''<pre>''
                         @ linesHTML 0 contentLines @ lit ''</pre>''
                  else lit ''<p class="binary-notice">'' @ escapeHTML msg @ lit ''</p>'')\<close>
    if "n \<le> 500"
    using that assms(1,3) nl
    by (auto simp: generateTextFileHTML_def displayLines_def maxLines_def Let_def
        errorNotice_def split: option.splits)
  have 3: "length (take 500 contentLines) = 500" if "500 < n"
    using that assms(3) by simp
  show ?thesis
    unfolding Let_def
  proof (intro conjI impI)
    assume b: "500 < n"
    show \<open>generateTextFileHTML env file =
       (case encoding r of
          None \<Rightarrow> []
        | Some e \<Rightarrow>
            if e = [] then []
            else lit ''<div class="encoding-info">Encoding: '' @ e @ lit ''</div>'')
         @ lit ''<pre>''
         @ concat (map2 (\<lambda>k l. lit ''<span class="file-content-line"><span class="line-number">''
                           @ show_nat k @ lit ''</span>''
                           @ escapeHTML (if 300 < length l then take 300 l @ lit ''...'' else l)
                           @ lit ''</span>'' @ [0x0A])
                     [1..<501] (take 500 contentLines))
         @ [0x0A, 0x0A] @ lit ''... ('' @ show_nat (n - 500) @ lit '' more lines)''
         @ lit ''</pre>''\<close>
      by (simp only: 1 [OF b] enc linesHTML_spelled [of 0] up500 [OF b])
    show "length (take 500 contentLines) = 500" by (rule 3 [OF b])
    show "list_all is_digit (show_nat (n - 500))" by (rule show_nat_digits)
    show "read_decimal (show_nat (n - 500)) = n - 500" by (rule read_show_nat)
  next
    assume s: "n \<le> 500"
    show \<open>generateTextFileHTML env file =
       (case error r of
          None \<Rightarrow>
            (case encoding r of
               None \<Rightarrow> []
             | Some e \<Rightarrow>
                 if e = [] then []
                 else lit ''<div class="encoding-info">Encoding: '' @ e @ lit ''</div>'')
              @ lit ''<pre>''
              @ concat (map2 (\<lambda>k l. lit ''<span class="file-content-line"><span class="line-number">''
                                @ show_nat k @ lit ''</span>''
                                @ escapeHTML (if 300 < length l then take 300 l @ lit ''...'' else l)
                                @ lit ''</span>'' @ [0x0A])
                          [1..<Suc n] contentLines)
              @ lit ''</pre>''
        | Some msg \<Rightarrow>
            if msg = []
            then (case encoding r of
                    None \<Rightarrow> []
                  | Some e \<Rightarrow>
                      if e = [] then []
                      else lit ''<div class="encoding-info">Encoding: '' @ e @ lit ''</div>'')
                   @ lit ''<pre>''
                   @ concat (map2 (\<lambda>k l. lit ''<span class="file-content-line"><span class="line-number">''
                                     @ show_nat k @ lit ''</span>''
                                     @ escapeHTML (if 300 < length l then take 300 l @ lit ''...'' else l)
                                     @ lit ''</span>'' @ [0x0A])
                               [1..<Suc n] contentLines)
                   @ lit ''</pre>''
            else lit ''<p class="binary-notice">'' @ escapeHTML msg @ lit ''</p>'')\<close>
      by (simp only: 2 [OF s] enc linesHTML_spelled [of 0] upn)
  qed
qed

text \<open>
  A file of 511 line feeds has 512 (empty) lines: 500 are rendered, 12 are omitted.
  A file of two lines is rendered in full.
\<close>

theorem C1_line_cap_witness:
  \<open>length (split_on 0x0A
        (content (getFileContent (sample_env (replicate 511 0x0A) None) (path sample_file)))) = 512
   \<and> generateTextFileHTML (sample_env (replicate 511 0x0A) None) sample_file =
        lit ''<div class="encoding-info">Encoding: utf8</div><pre>''
          @ concat (map (\<lambda>k. lit ''<span class="file-content-line"><span class="line-number">''
                           @ show_nat k @ lit ''</span></span>'' @ [0x0A])
                      [1..<501])
          @ [0x0A, 0x0A] @ lit ''... (12 more lines)''
          @ lit ''</pre>''
   \<and> length (split_on 0x0A
        (content (getFileContent (sample_env [0x61, 0x0A, 0x62] None) (path sample_file)))) = 2
   \<and> generateTextFileHTML (sample_env [0x61, 0x0A, 0x62] None) sample_file =
        lit ''<div class="encoding-info">Encoding: utf8</div><pre>''
          @ lit ''<span class="file-content-line"><span class="line-number">1</span>a</span>''
          @ [0x0A]
          @ lit ''<span class="file-content-line"><span class="line-number">2</span>b</span>''
          @ [0x0A] @ lit ''</pre>''\<close>
proof -
  let ?env = "sample_env (replicate 511 0x0A) None"
  let ?r = "\<lparr>content = replicate 511 0x0A, error = None, encoding = Some (lit ''utf8'')\<rparr>"
  have t: "list_all is_text_byte (replicate 511 0x0A)"
    by (simp add: list_all_iff is_text_byte_def)
  have r: "getFileContent ?env (path sample_file) = ?r"
    by (simp add: sample_content [OF t])
  have n: "split_on 0x0A (content ?r) = replicate 512 []"
    by (simp add: split_on_replicate_sep)
  have l: "length (replicate 512 ([] :: jsstring)) = 512" by simp
  have m: "show_nat 12 = lit ''12''"
    by (simp add: show_nat.simps lit_def)
  have k: "take 500 (replicate 512 []) = replicate (length [1..<501]) ([] :: jsstring)" by simp
  have e: "escapeHTML [] = []" by (simp add: escapeHTML_def replaceAll_def)
  from C1_line_cap [OF r n l]
  have big: \<open>generateTextFileHTML ?env sample_file =
        lit ''<div class="encoding-info">Encoding: utf8</div><pre>''
          @ concat (map (\<lambda>k. lit ''<span class="file-content-line"><span class="line-number">''
                           @ show_nat k @ lit ''</span></span>'' @ [0x0A])
                      [1..<501])
          @ [0x0A, 0x0A] @ lit ''... (12 more lines)''
          @ lit ''</pre>''\<close>
    unfolding Let_def k map2_replicate
    by (simp add: m e) (simp add: lit_def)
  let ?env2 = "sample_env [0x61, 0x0A, 0x62] None"
  let ?r2 = "\<lparr>content = [0x61, 0x0A, 0x62], error = None, encoding = Some (lit ''utf8'')\<rparr>"
  have t2: "list_all is_text_byte [0x61, 0x0A, 0x62]" by (simp add: is_text_byte_def)
  have r2: "getFileContent ?env2 (path sample_file) = ?r2"
    by (simp add: sample_content [OF t2])
  have n2: "split_on 0x0A (content ?r2) = [[0x61], [0x62]]" by simp
  have l2: "length [[0x61], [0x62 :: 16 word]] = 2" by simp
  have sh: "show_nat (Suc 0) = lit ''1''" "show_nat 2 = lit ''2''"
    by (simp_all add: show_nat.simps lit_def)
  have esc: "escapeHTML [0x61] = lit ''a''" "escapeHTML [0x62] = lit ''b''"
    by (simp_all add: escapeHTML_def replaceAll_def lit_def)
  have up: "[1..<Suc 2] = [Suc 0, 2]" by (simp add: upt_rec)
  from C1_line_cap [OF r2 n2 l2]
  have small: \<open>generateTextFileHTML ?env2 sample_file =
        lit ''<div class="encoding-info">Encoding: utf8</div><pre>''
          @ lit ''<span class="file-content-line"><span class="line-number">1</span>a</span>''
          @ [0x0A]
          @ lit ''<span class="file-content-line"><span class="line-number">2</span>b</span>''
          @ [0x0A] @ lit ''</pre>''\<close>
    unfolding Let_def up
    by (simp add: sh esc) (simp add: lit_def)
  have c1: "length (split_on 0x0A (content (getFileContent ?env (path sample_file)))) = 512"
    by (simp only: r n l)
  have c2: "length (split_on 0x0A (content (getFileContent ?env2 (path sample_file)))) = 2"
    by (simp only: r2 n2 l2)
  from c1 big c2 small show ?thesis by (intro conjI)
qed

text \<open>
  C2. For a file that passes the binary probe and is read and decoded without an
  exception, with the label \<open>detected || 'utf8'\<close> and the decoded text without its
  byte-order mark: the reader returns the control-characters error, with empty content
  and the label, exactly when the number of code units in the ranges \<open>0x00-0x08\<close>,
  \<open>0x0E-0x1F\<close>, \<open>0x7F-0x9F\<close> is strictly more than a tenth of the length of the
  text; otherwise it returns the text with the label. The length is below \<open>2^32\<close>, as
  every string of the host is; on that range the double-precision comparison of the
  source is the exact one.
\<close>

theorem C2_control_character_screen:
  assumes "isBinaryFileSync env filePath = Inr False"
    and "readFileSync env filePath = Inr buf"
    and "label = (case chardet_detect env buf of
                    None \<Rightarrow> lit ''utf8''
                  | Some d \<Rightarrow> if d = [] then lit ''utf8'' else d)"
    and "iconv_decode env buf label = Inr decoded"
    and "chars = (if decoded \<noteq> [] \<and> hd decoded = 0xFEFF then tl decoded else decoded)"
    and "length chars < 2 ^ 32"
    and "count = length (filter (\<lambda>c. c \<le> 0x08 \<or> (0x0E \<le> c \<and> c \<le> 0x1F)
                                      \<or> (0x7F \<le> c \<and> c \<le> 0x9F)) chars)"
  shows "getFileContent env filePath =
     (if length chars < 10 * count
      then \<lparr>content = [],
            error = Some (lit ''File contains control characters (content not displayed)''),
            encoding = Some label\<rparr>
      else \<lparr>content = chars, error = None, encoding = Some label\<rparr>)"
proof -
  have l: "encoding_or_default (chardet_detect env buf) = label"
    using assms(3) by (simp add: encoding_or_default_def split: option.splits)
  have s: "stripBOM decoded = chars"
    using assms(5) by (cases decoded) simp_all
  have f: "filter isControlChar chars
             = filter (\<lambda>c. c \<le> 0x08 \<or> (0x0E \<le> c \<and> c \<le> 0x1F) \<or> (0x7F \<le> c \<and> c \<le> 0x9F)) chars"
    by (rule filter_cong) (simp_all add: isControlChar_def)
  show ?thesis
    using assms(1,2,4) controlScreen_exact [OF assms(6), of label]
    by (simp add: getFileContent_def getFileContent_try_def Let_def l s f assms(7))
qed

text \<open>
  150 bytes \<open>0x7F\<close> in 1000 are rejected; 100 in 1000, exactly a tenth, are kept.
\<close>

theorem C2_witness:
  "getFileContent (sample_env (replicate 150 0x7F @ replicate 850 0x41) (Some (lit ''ASCII'')))
       (lit ''/repo/a.txt'') =
     \<lparr>content = [],
      error = Some (lit ''File contains control characters (content not displayed)''),
      encoding = Some (lit ''ASCII'')\<rparr>
   \<and> getFileContent (sample_env (replicate 100 0x7F @ replicate 900 0x41) (Some (lit ''ASCII'')))
       (lit ''/repo/a.txt'') =
     \<lparr>content = replicate 100 0x7F @ replicate 900 0x41, error = None,
      encoding = Some (lit ''ASCII'')\<rparr>"
proof -
  let ?p = "lit ''/repo/a.txt''"
  let ?b1 = "replicate 150 0x7F @ replicate 850 0x41 :: buffer"
  let ?b2 = "replicate 100 0x7F @ replicate 900 0x41 :: buffer"
  let ?t1 = "replicate 150 0x7F @ replicate 850 0x41 :: jsstring"
  let ?t2 = "replicate 100 0x7F @ replicate 900 0x41 :: jsstring"
  let ?e1 = "sample_env ?b1 (Some (lit ''ASCII''))"
  let ?e2 = "sample_env ?b2 (Some (lit ''ASCII''))"
  have a: "lit ''ASCII'' \<noteq> []" by (simp add: lit_def)
  have 1: "getFileContent ?e1 ?p =
     \<lparr>content = [],
      error = Some (lit ''File contains control characters (content not displayed)''),
      encoding = Some (lit ''ASCII'')\<rparr>"
    using C2_control_character_screen [of ?e1 ?p ?b1 "lit ''ASCII''" ?t1 ?t1 150]
    by (simp add: sample_env_def a)
  have 2: "getFileContent ?e2 ?p =
     \<lparr>content = ?t2, error = None, encoding = Some (lit ''ASCII'')\<rparr>"
    using C2_control_character_screen [of ?e2 ?p ?b2 "lit ''ASCII''" ?t2 ?t2 100]
    by (simp add: sample_env_def a)
  from 1 2 show ?thesis by (rule conjI)
qed

text \<open>
  C3, as amended. The rule set of the manager is the built-in \<open>.git\<close>, then the lines
  of the ignore file, then the extra patterns. The last line that matches a path
  decides, so the manager ignores \<open>.git\<close> exactly when the last line of the ignore
  file and the extra patterns that matches \<open>.git\<close> does not begin with \<open>!\<close> (in
  particular when none of them matches it, or none is negated). Then the tree builder
  emits no line for a root entry \<open>.git\<close> and does not descend into it, and the
  collector collects nothing from it. When that last line is negated, as with the
  extra pattern \<open>!.git\<close>, the directory is listed and collected like any other. The
  pattern language of the package is a parameter, of which only this is used: the
  pattern \<open>.git\<close> matches the path \<open>.git\<close>.
\<close>

theorem C3_git_excluded_unless_reincluded:
  assumes "newIgnoreRulesManager gitignore extraIgnores = Inr rules"
    and "matches (lit ''.git'') (lit ''.git'')"
    and "ignores c (lit ''.git'') = Inr (rules_ignore matches rules (lit ''.git''))"
    and "patterns = (case gitignore of
                       Some (Inr gitignoreContent) \<Rightarrow> split_lines gitignoreContent
                     | _ \<Rightarrow> [])
                    @ extraIgnores"
    and "reincluded = (case List.find (\<lambda>line. matches line (lit ''.git'')) (rev patterns) of
                         None \<Rightarrow> False
                       | Some line \<Rightarrow> line \<noteq> [] \<and> hd line = 0x21)"
  shows "rules = lit ''.git'' # patterns
     \<and> rules_ignore matches rules (lit ''.git'') = (\<not> reincluded)
     \<and> (\<not> reincluded \<longrightarrow>
          tree_entry c (baseDir c) prefix 0 n i (DirN (lit ''.git'') items) = (None, [])
          \<and> collect_entry c (baseDir c) (DirN (lit ''.git'') items) = (None, []))
     \<and> (reincluded \<longrightarrow>
          tree_entry c (baseDir c) prefix 0 n i (DirN (lit ''.git'') items) =
            (None,
             (prefix @ (if int i = int n - 1 then lastConnector else midConnector) @ lit ''.git/'')
             # (if isRecursive c
                then buildTree c (path_join (baseDir c) (lit ''.git''))
                       (prefix @ (if int i = int n - 1 then lastIndent else midIndent)) 1
                       (DirN (lit ''.git'') items)
                else []))
          \<and> collect_entry c (baseDir c) (DirN (lit ''.git'') items) =
              (None,
               if isRecursive c
               then collectFilesRecursive c (path_join (baseDir c) (lit ''.git''))
                      (DirN (lit ''.git'') items)
               else []))"
proof -
  have r: "rules = lit ''.git'' # patterns"
    using manager_rules [OF assms(1)] assms(4) by simp
  have v: "rules_ignore matches rules (lit ''.git'') = (\<not> reincluded)"
    unfolding r rules_ignore_git assms(5)
    by (simp only: git_verdict [of matches, OF assms(2)] negated_def)
  have g: "ignores c (lit ''.git'') = Inr (\<not> reincluded)"
    using assms(3) v by simp
  have s: "lit ''.git'' @ [slash] = lit ''.git/''" by (simp add: lit_def slash_def)
  show ?thesis
    using r v g
    by (simp add: tree_entry.simps collect_entry.simps path_relative_join Let_def s)
qed

text \<open>
  The claim as stated fails: with the extra pattern \<open>!.git\<close> the directory is listed
  in the tree and its file is collected.
\<close>

theorem C3_reinclusion_counterexample:
  "newIgnoreRulesManager None [lit ''!.git''] = Inr [lit ''.git'', lit ''!.git'']
   \<and> plain_name_matcher (lit ''.git'') (lit ''.git'')
   \<and> \<not> rules_ignore plain_name_matcher [lit ''.git'', lit ''!.git''] (lit ''.git'')
   \<and> getDirectoryStructure
        (ascii_collector True (plain_name_manager [lit ''.git'', lit ''!.git''])) git_tree
       = [lit ''repo/'', lastConnector @ lit ''.git/'',
          lastIndent @ lastConnector @ lit ''config'']
   \<and> map relativePath
        (collectFiles (ascii_collector True (plain_name_manager [lit ''.git'', lit ''!.git'']))
           git_tree)
       = [lit ''.git/config'']"
proof -
  let ?rules = "[lit ''.git'', lit ''!.git'']"
  have m: "newIgnoreRulesManager None [lit ''!.git''] = Inr ?rules"
    by (simp add: newIgnoreRulesManager_def add_text_def add_patterns_def split_lines_git)
  have p: "plain_name_matcher (lit ''.git'') (lit ''.git'')"
    by (simp add: rule_defs)
  have i: "plain_name_manager ?rules (lit ''.git'') = Inr False"
    "plain_name_manager ?rules (lit ''.git/config'') = Inr False"
    by (simp_all add: rule_defs)
  have t: "getDirectoryStructure (ascii_collector True (plain_name_manager ?rules)) git_tree
       = [lit ''repo/'', lastConnector @ lit ''.git/'',
          lastIndent @ lastConnector @ lit ''config'']"
    using i by (simp add: eval_defs git_tree_def lastConnector_def lastIndent_def)
  have f: "map relativePath (collectFiles (ascii_collector True (plain_name_manager ?rules)) git_tree)
       = [lit ''.git/config'']"
    using i by (simp add: eval_defs git_tree_def)
  from i(1) have n: "\<not> rules_ignore plain_name_matcher ?rules (lit ''.git'')"
    by (simp add: plain_name_manager_def)
  from m p n t f show ?thesis by (intro conjI)
qed

text \<open>
  An ignore file \<open>node_modules\<close>, \<open>!keep.log\<close> and the extra patterns \<open>!.git\<close>,
  \<open>.git\<close>: the last line that matches \<open>.git\<close> is not negated, and \<open>.git\<close> stays
  excluded; so does \<open>.git/config\<close> below it, which no line matches. No ignore file
  and the extra patterns \<open>dist\<close>, \<open>!.git\<close>: the last line that matches \<open>.git\<close> is
  negated, and \<open>.git\<close> is listed and its file collected.
\<close>

theorem C3_git_excluded_unless_reincluded_witness:
  "newIgnoreRulesManager (Some (Inr (lit ''node_modules'' @ 0x0D # 0x0A # lit ''!keep.log'')))
       [lit ''!.git'', lit ''.git'']
     = Inr [lit ''.git'', lit ''node_modules'', lit ''!keep.log'', lit ''!.git'', lit ''.git'']
   \<and> plain_name_matcher (lit ''.git'') (lit ''.git'')
   \<and> rules_ignore plain_name_matcher
        [lit ''.git'', lit ''node_modules'', lit ''!keep.log'', lit ''!.git'', lit ''.git'']
        (lit ''.git'')
   \<and> tree_entry
        (ascii_collector True
           (plain_name_manager
              [lit ''.git'', lit ''node_modules'', lit ''!keep.log'', lit ''!.git'', lit ''.git'']))
        (lit ''/repo'') [] 0 1 0 (DirN (lit ''.git'') [FileN (lit ''config'') (Inr False)])
       = (None, [])
   \<and> collect_entry
        (ascii_collector True
           (plain_name_manager
              [lit ''.git'', lit ''node_modules'', lit ''!keep.log'', lit ''!.git'', lit ''.git'']))
        (lit ''/repo'') (DirN (lit ''.git'') [FileN (lit ''config'') (Inr False)])
       = (None, [])
   \<and> rules_ignore plain_name_matcher
        [lit ''.git'', lit ''node_modules'', lit ''!keep.log'', lit ''!.git'', lit ''.git'']
        (lit ''.git/config'')
   \<and> newIgnoreRulesManager None [lit ''dist'', lit ''!.git'']
     = Inr [lit ''.git'', lit ''dist'', lit ''!.git'']
   \<and> \<not> rules_ignore plain_name_matcher [lit ''.git'', lit ''dist'', lit ''!.git''] (lit ''.git'')
   \<and> tree_entry
        (ascii_collector True (plain_name_manager [lit ''.git'', lit ''dist'', lit ''!.git'']))
        (lit ''/repo'') [] 0 1 0 (DirN (lit ''.git'') [FileN (lit ''config'') (Inr False)])
       = (None, [lastConnector @ lit ''.git/'', lastIndent @ lastConnector @ lit ''config''])
   \<and> collect_entry
        (ascii_collector True (plain_name_manager [lit ''.git'', lit ''dist'', lit ''!.git'']))
        (lit ''/repo'') (DirN (lit ''.git'') [FileN (lit ''config'') (Inr False)])
       = (None, [\<lparr>path = lit ''/repo/.git/config'', type = Text,
                   relativePath = lit ''.git/config''\<rparr>])"
proof -
  let ?g = "Some (Inr (lit ''node_modules'' @ 0x0D # 0x0A # lit ''!keep.log''))"
  let ?ps = "[lit ''node_modules'', lit ''!keep.log'', lit ''!.git'', lit ''.git'']"
  let ?rules = "lit ''.git'' # ?ps"
  let ?c = "ascii_collector True (plain_name_manager ?rules)"
  let ?node = "DirN (lit ''.git'') [FileN (lit ''config'') (Inr False)]"
  have sp: "split_lines (lit ''node_modules'' @ 0x0D # 0x0A # lit ''!keep.log'')
              = [lit ''node_modules'', lit ''!keep.log'']"
    by (simp add: lit_def)
  have m: "newIgnoreRulesManager ?g [lit ''!.git'', lit ''.git''] = Inr ?rules"
    by (simp add: newIgnoreRulesManager_def add_text_def add_patterns_def split_lines_git sp)
  have p: "plain_name_matcher (lit ''.git'') (lit ''.git'')"
    by (simp add: rule_defs)
  have ig: "ignores ?c (lit ''.git'') = Inr (rules_ignore plain_name_matcher ?rules (lit ''.git''))"
    by (simp add: ascii_collector_def plain_name_manager_def)
  have ps: "?ps = (case ?g of Some (Inr gitignoreContent) \<Rightarrow> split_lines gitignoreContent | _ \<Rightarrow> [])
                  @ [lit ''!.git'', lit ''.git'']"
    by (simp add: sp)
  have n: "False = (case List.find (\<lambda>line. plain_name_matcher line (lit ''.git'')) (rev ?ps) of
                      None \<Rightarrow> False
                    | Some line \<Rightarrow> line \<noteq> [] \<and> hd line = 0x21)"
    by (simp add: rule_defs)
  have b: "baseDir ?c = lit ''/repo''" by (simp add: ascii_collector_def)
  from C3_git_excluded_unless_reincluded [OF m p ig ps n, of "[]" 1 0
      "[FileN (lit ''config'') (Inr False)]"]
  have a: "rules_ignore plain_name_matcher ?rules (lit ''.git'')
     \<and> tree_entry ?c (lit ''/repo'') [] 0 1 0 ?node = (None, [])
     \<and> collect_entry ?c (lit ''/repo'') ?node = (None, [])"
    unfolding b by blast
  have below: "rules_ignore plain_name_matcher ?rules (lit ''.git/config'')"
    by (simp add: rule_defs)
  let ?ps2 = "[lit ''dist'', lit ''!.git'']"
  let ?rules2 = "lit ''.git'' # ?ps2"
  let ?c2 = "ascii_collector True (plain_name_manager ?rules2)"
  have m2: "newIgnoreRulesManager None ?ps2 = Inr ?rules2"
    by (simp add: newIgnoreRulesManager_def add_text_def add_patterns_def split_lines_git)
  have ig2: "ignores ?c2 (lit ''.git'') = Inr (rules_ignore plain_name_matcher ?rules2 (lit ''.git''))"
    by (simp add: ascii_collector_def plain_name_manager_def)
  have ps2: "?ps2 = (case None of Some (Inr gitignoreContent) \<Rightarrow> split_lines gitignoreContent | _ \<Rightarrow> [])
                    @ ?ps2"
    by simp
  have n2: "True = (case List.find (\<lambda>line. plain_name_matcher line (lit ''.git'')) (rev ?ps2) of
                      None \<Rightarrow> False
                    | Some line \<Rightarrow> line \<noteq> [] \<and> hd line = 0x21)"
    by (simp add: rule_defs)
  have b2: "baseDir ?c2 = lit ''/repo''" "isRecursive ?c2" by (simp_all add: ascii_collector_def)
  have i2: "plain_name_manager ?rules2 (lit ''.git/config'') = Inr False"
    by (simp add: rule_defs)
  have sub: "buildTree ?c2 (path_join (lit ''/repo'') (lit ''.git'')) ([] @ lastIndent) 1 ?node
               = [lastIndent @ lastConnector @ lit ''config'']"
    using i2 by (simp add: eval_defs lastConnector_def lastIndent_def)
  have files: "collectFilesRecursive ?c2 (path_join (lit ''/repo'') (lit ''.git'')) ?node
                 = [\<lparr>path = lit ''/repo/.git/config'', type = Text,
                      relativePath = lit ''.git/config''\<rparr>]"
    using i2 by (simp add: eval_defs)
  from C3_git_excluded_unless_reincluded [OF m2 p ig2 ps2 n2, of "[]" 1 0
      "[FileN (lit ''config'') (Inr False)]"]
  have "\<not> rules_ignore plain_name_matcher ?rules2 (lit ''.git'')
     \<and> tree_entry ?c2 (lit ''/repo'') [] 0 1 0 ?node
         = (None, [lastConnector @ lit ''.git/'', lastIndent @ lastConnector @ lit ''config''])
     \<and> collect_entry ?c2 (lit ''/repo'') ?node
         = (None, [\<lparr>path = lit ''/repo/.git/config'', type = Text,
                     relativePath = lit ''.git/config''\<rparr>])"
    unfolding b2(1) using b2(2) sub files by simp
  with m p a below m2 show ?thesis by (intro conjI) blast+
qed

text \<open>
  C4, as amended. When no call of the walk throws (\<open>fs.statSync\<close> and the type probe
  succeed on every entry, the manager answers for the path of every entry), the file
  list of every directory is made of the contributions of its entries in the order in
  which \<open>readdirSync\<close> returns them: nothing for an ignored entry, the file itself
  for a file, and for a subdirectory its own file list, in its place, when the walk
  is recursive. The collector does not sort. The tree lines are the lines of the
  annotated rows. The file list of the base directory is in the order of the file
  lines of the sorted tree when every listing is already returned in the tree's
  order: directories first, then by \<open>localeCompare\<close>, so that of two entries the tree
  puts the second first exactly when it is a directory and the first is not, or both
  are of one kind and the first compares greater. The file sections are generated in
  the order of the file list.
\<close>

theorem C4_file_list_follows_listing_order:
  assumes "reads_succeed (DirN name items)"
    and "ignores_answers c dir (DirN name items)"
  shows "map relativePath (collectFilesRecursive c dir (DirN name items))
           = concat (map (\<lambda>x.
                 if ignores c (path_relative (baseDir c) (path_join dir (nodeName x))) = Inr True
                 then []
                 else (case x of
                         FileN nm probe \<Rightarrow> [path_relative (baseDir c) (path_join dir nm)]
                       | DirN nm sub \<Rightarrow>
                           if isRecursive c
                           then map relativePath (collectFilesRecursive c (path_join dir nm) x)
                           else []
                       | _ \<Rightarrow> []))
               items)
     \<and> collectFiles c (DirN name items) = collectFilesRecursive c (baseDir c) (DirN name items)
     \<and> getDirectoryStructure c (DirN name items)
           = (basename (baseDir c) @ [slash])
             # map fst (buildTreeRows c (baseDir c) [] 0 (DirN name items))
     \<and> (dir = baseDir c \<and> listings_in_tree_order c (DirN name items) \<longrightarrow>
           map relativePath (collectFiles c (DirN name items)) = treeFileOrder c (DirN name items))
     \<and> (isDirectory a = Inr aIsDir \<and> isDirectory b = Inr bIsDir \<longrightarrow>
           sortItems c [a, b] =
             Inr (if (\<not> aIsDir \<and> bIsDir)
                     \<or> (aIsDir = bIsDir \<and> 0 < localeCompare c (nodeName a) (nodeName b))
                  then [b, a] else [a, b]))
     \<and> generateFileContentsHTML env imageHTML (collectFiles c (DirN name items))
           = concat (map (fileSectionHTML env imageHTML) (collectFiles c (DirN name items)))"
proof -
  from assms(1) have ok: "list_all reads_succeed items" by simp
  from assms(2) have ans:
    "list_all (\<lambda>x. case ignores c (path_relative (baseDir c) (path_join dir (nodeName x))) of
                      Inl e \<Rightarrow> False | Inr b \<Rightarrow> True) items"
    by (simp add: list_all_iff)
  have "fst (collect_entries c dir items) = None"
    using collect_entries_ok [OF ans ok] .
  then have "collectFilesRecursive c dir (DirN name items)
               = concat (map (\<lambda>x. snd (collect_entry c dir x)) items)"
    by (simp add: collectFilesRecursive_Dir collect_entries_complete)
  then have "map relativePath (collectFilesRecursive c dir (DirN name items))
               = concat (map (\<lambda>x. map relativePath (snd (collect_entry c dir x))) items)"
    by (simp add: map_concat comp_def)
  also have "\<dots> = concat (map (\<lambda>x.
                 if ignores c (path_relative (baseDir c) (path_join dir (nodeName x))) = Inr True
                 then []
                 else (case x of
                         FileN nm probe \<Rightarrow> [path_relative (baseDir c) (path_join dir nm)]
                       | DirN nm sub \<Rightarrow>
                           if isRecursive c
                           then map relativePath (collectFilesRecursive c (path_join dir nm) x)
                           else []
                       | _ \<Rightarrow> []))
               items)"
  proof (rule arg_cong [where f = concat], rule map_cong [OF refl])
    fix x assume x: "x \<in> set items"
    with ok have r: "reads_succeed x" by (simp add: list_all_iff)
    from x ans obtain ign
      where i: "ignores c (path_relative (baseDir c) (path_join dir (nodeName x))) = Inr ign"
      using answers_cases by (fastforce simp: list_all_iff)
    from collect_entry_paths [OF i r, THEN conjunct2]
    show "map relativePath (snd (collect_entry c dir x)) =
            (if ignores c (path_relative (baseDir c) (path_join dir (nodeName x))) = Inr True
             then []
             else (case x of
                     FileN nm probe \<Rightarrow> [path_relative (baseDir c) (path_join dir nm)]
                   | DirN nm sub \<Rightarrow>
                       if isRecursive c
                       then map relativePath (collectFilesRecursive c (path_join dir nm) x)
                       else []
                   | _ \<Rightarrow> []))"
      by (simp add: i)
  qed
  finally have 1: "map relativePath (collectFilesRecursive c dir (DirN name items))
           = concat (map (\<lambda>x.
                 if ignores c (path_relative (baseDir c) (path_join dir (nodeName x))) = Inr True
                 then []
                 else (case x of
                         FileN nm probe \<Rightarrow> [path_relative (baseDir c) (path_join dir nm)]
                       | DirN nm sub \<Rightarrow>
                           if isRecursive c
                           then map relativePath (collectFilesRecursive c (path_join dir nm) x)
                           else []
                       | _ \<Rightarrow> []))
               items)" .
  have 2: "collectFiles c (DirN name items) = collectFilesRecursive c (baseDir c) (DirN name items)"
    by (simp add: collectFiles_def)
  have 3: "getDirectoryStructure c (DirN name items)
           = (basename (baseDir c) @ [slash])
             # map fst (buildTreeRows c (baseDir c) [] 0 (DirN name items))"
    by (simp add: getDirectoryStructure_def rows_lines(3))
  have 4: "map relativePath (collectFiles c (DirN name items)) = treeFileOrder c (DirN name items)"
    if "dir = baseDir c \<and> listings_in_tree_order c (DirN name items)"
  proof -
    from that assms(2) have a: "ignores_answers c (baseDir c) (DirN name items)" by simp
    from that have l: "listings_in_tree_order c (DirN name items)" by simp
    from order_agree(3) [OF a l assms(1), of 0 "[]"]
    show ?thesis by (simp add: collectFiles_def treeFileOrder_def)
  qed
  have 5: "generateFileContentsHTML env imageHTML (collectFiles c (DirN name items))
           = concat (map (fileSectionHTML env imageHTML) (collectFiles c (DirN name items)))"
    by (rule generateFileContentsHTML_concat)
  have 6: "sortItems c [a, b] =
             Inr (if (\<not> aIsDir \<and> bIsDir)
                     \<or> (aIsDir = bIsDir \<and> 0 < localeCompare c (nodeName a) (nodeName b))
                  then [b, a] else [a, b])"
    if "isDirectory a = Inr aIsDir \<and> isDirectory b = Inr bIsDir"
    using that by (auto simp: sortItems_def compareItems_def)
  from 1 2 3 4 5 6 show ?thesis by blast
qed

text \<open>
  The claim as stated fails: for the listing \<open>a.txt\<close>, \<open>sub\<close> the file list is
  \<open>a.txt\<close>, \<open>sub/b.txt\<close>, while the tree lists \<open>sub/b.txt\<close> before \<open>a.txt\<close>.
\<close>

theorem C4_sorted_order_counterexample:
  "reads_succeed unsorted_tree
   \<and> ignores_answers (ascii_collector True nothing_ignored) (lit ''/repo'') unsorted_tree
   \<and> map relativePath (collectFiles (ascii_collector True nothing_ignored) unsorted_tree)
       = [lit ''a.txt'', lit ''sub/b.txt'']
   \<and> treeFileOrder (ascii_collector True nothing_ignored) unsorted_tree
       = [lit ''sub/b.txt'', lit ''a.txt'']
   \<and> getDirectoryStructure (ascii_collector True nothing_ignored) unsorted_tree
       = [lit ''repo/'', midConnector @ lit ''sub/'',
          midIndent @ lastConnector @ lit ''b.txt'', lastConnector @ lit ''a.txt'']"
proof -
  have 1: "reads_succeed unsorted_tree" by (simp add: unsorted_tree_def)
  have 0: "ignores_answers (ascii_collector True nothing_ignored) (lit ''/repo'') unsorted_tree"
    by (simp add: unsorted_tree_def ascii_collector_def nothing_ignored_def)
  have 2: "map relativePath (collectFiles (ascii_collector True nothing_ignored) unsorted_tree)
       = [lit ''a.txt'', lit ''sub/b.txt'']"
    by (simp add: eval_defs unsorted_tree_def nothing_ignored_def)
  have 3: "treeFileOrder (ascii_collector True nothing_ignored) unsorted_tree
       = [lit ''sub/b.txt'', lit ''a.txt'']"
    by (simp add: treeFileOrder_def buildTreeRows.simps tree_entry_rows.simps eval_defs
        map_filter_simps unsorted_tree_def nothing_ignored_def)
  have 4: "getDirectoryStructure (ascii_collector True nothing_ignored) unsorted_tree
       = [lit ''repo/'', midConnector @ lit ''sub/'',
          midIndent @ lastConnector @ lit ''b.txt'', lastConnector @ lit ''a.txt'']"
    by (simp add: eval_defs unsorted_tree_def nothing_ignored_def
        midConnector_def lastConnector_def midIndent_def)
  from 1 0 2 3 4 show ?thesis by (intro conjI)
qed

text \<open>
  The same tree with its listing returned directories first; and the sort of a file
  listed before a directory, and of two files.
\<close>

theorem C4_file_list_follows_listing_order_witness:
  "reads_succeed sorted_tree
   \<and> ignores_answers (ascii_collector True nothing_ignored) (lit ''/repo'') sorted_tree
   \<and> listings_in_tree_order (ascii_collector True nothing_ignored) sorted_tree
   \<and> map relativePath (collectFiles (ascii_collector True nothing_ignored) sorted_tree)
       = [lit ''sub/b.txt'', lit ''a.txt'']
   \<and> treeFileOrder (ascii_collector True nothing_ignored) sorted_tree
       = [lit ''sub/b.txt'', lit ''a.txt'']
   \<and> sortItems (ascii_collector True nothing_ignored)
         [FileN (lit ''a.txt'') (Inr False), DirN (lit ''sub'') []]
       = Inr [DirN (lit ''sub'') [], FileN (lit ''a.txt'') (Inr False)]
   \<and> sortItems (ascii_collector True nothing_ignored)
         [FileN (lit ''b.txt'') (Inr False), FileN (lit ''a.txt'') (Inr False)]
       = Inr [FileN (lit ''a.txt'') (Inr False), FileN (lit ''b.txt'') (Inr False)]"
proof -
  let ?c = "ascii_collector True nothing_ignored"
  let ?items = "[DirN (lit ''sub'') [FileN (lit ''b.txt'') (Inr False)],
                 FileN (lit ''a.txt'') (Inr False)]"
  have t: "sorted_tree = DirN (lit ''repo'') ?items" by (simp add: sorted_tree_def)
  have b: "lit ''/repo'' = baseDir ?c" by (simp add: ascii_collector_def)
  have 1: "reads_succeed (DirN (lit ''repo'') ?items)" by simp
  have i: "ignores_answers ?c (lit ''/repo'') (DirN (lit ''repo'') ?items)"
    by (simp add: ascii_collector_def nothing_ignored_def)
  have 2: "listings_in_tree_order ?c (DirN (lit ''repo'') ?items)"
    by (simp add: sortItems_def compareItems_def)
  have 3: "map relativePath (collectFiles ?c (DirN (lit ''repo'') ?items))
             = [lit ''sub/b.txt'', lit ''a.txt'']"
    by (simp add: eval_defs nothing_ignored_def)
  from C4_file_list_follows_listing_order [OF 1 i] b 2
  have "map relativePath (collectFiles ?c (DirN (lit ''repo'') ?items))
          = treeFileOrder ?c (DirN (lit ''repo'') ?items)"
    by blast
  with 3 have 4: "treeFileOrder ?c (DirN (lit ''repo'') ?items) = [lit ''sub/b.txt'', lit ''a.txt'']"
    by simp
  have lc: "localeCompare ?c (lit ''a.txt'') (lit ''sub'') = - 1"
    "localeCompare ?c (lit ''b.txt'') (lit ''a.txt'') = 1"
    by (simp_all add: ascii_collector_def lit_def)
  from C4_file_list_follows_listing_order [OF 1 i,
      of "FileN (lit ''a.txt'') (Inr False)" False "DirN (lit ''sub'') []" True]
  have 5: "sortItems ?c [FileN (lit ''a.txt'') (Inr False), DirN (lit ''sub'') []]
             = Inr [DirN (lit ''sub'') [], FileN (lit ''a.txt'') (Inr False)]"
    by simp
  from C4_file_list_follows_listing_order [OF 1 i,
      of "FileN (lit ''b.txt'') (Inr False)" False "FileN (lit ''a.txt'') (Inr False)" False]
  have 6: "sortItems ?c [FileN (lit ''b.txt'') (Inr False), FileN (lit ''a.txt'') (Inr False)]
             = Inr [FileN (lit ''a.txt'') (Inr False), FileN (lit ''b.txt'') (Inr False)]"
    by (simp add: lc)
  from 1 i 2 3 4 5 6 show ?thesis unfolding t by (intro conjI)
qed

text \<open>
  C5, as amended. For a file of plain ASCII text (printable bytes, tab, line feed,
  carriage return) that passes the binary probe and is decoded byte for byte, with at
  most 500 lines and every line at most 300 code units long, the reader returns the
  bytes as text without error, the lines joined by line feeds are that text again, and
  the section is the encoding note and one numbered line per line of the text, each
  line in full (HTML-escaped), with no ellipsis and no omission marker.
\<close>

theorem C5_ascii_round_trip:
  assumes "list_all is_text_byte bytes"
    and "isBinaryFileSync env (path file) = Inr False"
    and "readFileSync env (path file) = Inr bytes"
    and "iconv_decode env bytes (encoding_or_default (chardet_detect env bytes)) = Inr (map ucast bytes)"
    and "length (split_on newline (map ucast bytes)) \<le> 500"
    and "list_all (\<lambda>l. length l \<le> 300) (split_on newline (map ucast bytes))"
  shows \<open>getFileContent env (path file) =
           \<lparr>content = map ucast bytes, error = None,
            encoding = Some (encoding_or_default (chardet_detect env bytes))\<rparr>
         \<and> join_with newline (split_on newline (map ucast bytes)) = map ucast bytes
         \<and> generateTextFileHTML env file =
             encodingInfo (Some (encoding_or_default (chardet_detect env bytes))) @ lit ''<pre>''
               @ concat (map2 (\<lambda>k l. lit ''<span class="file-content-line"><span class="line-number">''
                                 @ show_nat k @ lit ''</span>'' @ escapeHTML l @ lit ''</span>''
                                 @ [newline])
                           [1..<Suc (length (split_on newline (map ucast bytes)))]
                           (split_on newline (map ucast bytes)))
               @ lit ''</pre>''\<close>
proof -
  let ?enc = "encoding_or_default (chardet_detect env bytes)"
  let ?ls = "split_on newline (map ucast bytes)"
  have r: "getFileContent env (path file) =
             \<lparr>content = map ucast bytes, error = None, encoding = Some ?enc\<rparr>"
    using assms(2-4) text_bytes_no_control [OF assms(1)]
    by (simp add: getFileContent_def getFileContent_try_def controlScreen_def stripBOM_ucast)
  have "generateTextFileHTML env file =
          encodingInfo (Some ?enc) @ lit ''<pre>'' @ linesHTML 0 ?ls @ lit ''</pre>''"
    using assms(5) by (simp add: generateTextFileHTML_def r displayLines_def maxLines_def Let_def)
  with r show ?thesis
    by (simp add: linesHTML_short [OF assms(6)] join_split_on)
qed

text \<open>The two lines \<open>a<\<close> and \<open>b\<close>.\<close>

theorem C5_ascii_round_trip_witness:
  \<open>list_all is_text_byte [0x61, 0x3C, 0x0A, 0x62]
   \<and> length (split_on newline (map ucast [0x61, 0x3C, 0x0A, 0x62 :: 8 word])) \<le> 500
   \<and> content (getFileContent (sample_env [0x61, 0x3C, 0x0A, 0x62] None) (path sample_file)) =
        [0x61, 0x3C, 0x0A, 0x62]
   \<and> generateTextFileHTML (sample_env [0x61, 0x3C, 0x0A, 0x62] None) sample_file =
        lit ''<div class="encoding-info">Encoding: utf8</div><pre>''
          @ lit ''<span class="file-content-line"><span class="line-number">1</span>a&lt;</span>''
          @ [newline]
          @ lit ''<span class="file-content-line"><span class="line-number">2</span>b</span>''
          @ [newline] @ lit ''</pre>''\<close>
proof -
  let ?bytes = "[0x61, 0x3C, 0x0A, 0x62] :: buffer"
  let ?env = "sample_env ?bytes None"
  have t: "list_all is_text_byte ?bytes" by (simp add: is_text_byte_def)
  have sp: "split_on newline (map ucast ?bytes) = [[0x61, 0x3C], [0x62]]"
    by (simp add: newline_def)
  have e: "encoding_or_default (chardet_detect ?env ?bytes) = lit ''utf8''"
    by (simp add: sample_env_def encoding_or_default_def)
  have up: "[1..<Suc (length [[0x61, 0x3C], [0x62 :: 16 word]])] = [1, 2]"
    by (simp add: upt_rec)
  have esc: "escapeHTML [0x61, 0x3C] = lit ''a&lt;''" "escapeHTML [0x62] = lit ''b''"
    by (simp_all add: escapeHTML_def replaceAll_def lit_def)
  have sh: "show_nat (Suc 0) = lit ''1''" "show_nat 2 = lit ''2''"
    by (simp_all add: show_nat.simps lit_def)
  from C5_ascii_round_trip [of ?bytes ?env sample_file] t
  show ?thesis
    unfolding sp e up
    by (simp add: sample_env_def encodingInfo_def esc sh) (simp add: lit_def newline_def)
qed

text \<open>
  The claim as stated fails: one ASCII line of 301 letters is under the line cap, yet
  the section shows 300 letters and an ellipsis.
\<close>

theorem C5_long_line_counterexample:
  \<open>list_all is_text_byte (replicate 301 0x61)
   \<and> split_on newline (map ucast (replicate 301 (0x61 :: 8 word))) = [replicate 301 0x61]
   \<and> content (getFileContent (sample_env (replicate 301 0x61) None) (path sample_file)) =
        replicate 301 0x61
   \<and> generateTextFileHTML (sample_env (replicate 301 0x61) None) sample_file =
        lit ''<div class="encoding-info">Encoding: utf8</div><pre>''
          @ lit ''<span class="file-content-line"><span class="line-number">1</span>''
          @ replicate 300 0x61 @ lit ''...</span>'' @ [newline] @ lit ''</pre>''\<close>
proof -
  let ?env = "sample_env (replicate 301 0x61) None"
  have t: "list_all is_text_byte (replicate 301 0x61)"
    by (simp add: list_all_iff is_text_byte_def)
  have r: "getFileContent ?env (path sample_file) =
             \<lparr>content = replicate 301 0x61, error = None, encoding = Some (lit ''utf8'')\<rparr>"
    by (simp add: sample_content [OF t])
  have sp: "split_on newline (replicate 301 0x61) = [replicate 301 0x61]"
    by (rule split_on_no_sep) (simp add: newline_def)
  have d: "displayLine (replicate 301 0x61) = replicate 300 0x61 @ lit ''...''"
    by (simp add: displayLine_def maxLineLength_def)
  have e: "escapeHTML (replicate 300 0x61 @ lit ''...'') = replicate 300 0x61 @ lit ''...''"
    by (rule escapeHTML_plain) (simp_all add: lit_def)
  have l: \<open>lineHTML (Suc 0) (replicate 301 0x61) =
             lit ''<span class="file-content-line"><span class="line-number">1</span>''
               @ replicate 300 0x61 @ lit ''...</span>'' @ [newline]\<close>
    by (simp only: lineHTML_def d e) (simp add: show_nat.simps lit_def)
  have g: "generateTextFileHTML ?env sample_file =
             encodingInfo (Some (lit ''utf8'')) @ lit ''<pre>''
               @ lineHTML (Suc 0) (replicate 301 0x61) @ lit ''</pre>''"
    by (simp add: generateTextFileHTML_def r sp displayLines_def maxLines_def)
  show ?thesis
    using t sp by (simp add: r g l) (simp add: encodingInfo_def lit_def)
qed

text \<open>
  C6. \<open>getFileContent\<close> returns a result for every environment and path: the handler
  turns an exception of the binary probe, of the read or of the decoder into the
  result with empty content, no encoding and the error \<open>Reading error: \<close> followed by
  the message. The section of such a text file is the notice paragraph with that
  (escaped) text, and the loop over the files goes on with the files after it.
\<close>

theorem C6_exceptions_become_notices:
  assumes "isBinaryFileSync env (path file) = Inl e
           \<or> (isBinaryFileSync env (path file) = Inr False
                \<and> readFileSync env (path file) = Inl e)
           \<or> (isBinaryFileSync env (path file) = Inr False
                \<and> readFileSync env (path file) = Inr buf
                \<and> iconv_decode env buf (encoding_or_default (chardet_detect env buf)) = Inl e)"
    and "type file = Text"
  shows \<open>getFileContent env (path file) =
            \<lparr>content = [], error = Some (lit ''Reading error: '' @ errorMessage e),
             encoding = None\<rparr>
         \<and> generateTextFileHTML env file =
             lit ''<p class="binary-notice">''
               @ escapeHTML (lit ''Reading error: '' @ errorMessage e) @ lit ''</p>''
         \<and> generateFileContentsHTML env imageHTML (file # files) =
             lit ''<div class="file-path">/'' @ escapeHTML (relativePath file) @ lit '':</div>''
               @ lit ''<p class="binary-notice">''
               @ escapeHTML (lit ''Reading error: '' @ errorMessage e) @ lit ''</p>''
               @ generateFileContentsHTML env imageHTML files\<close>
proof -
  from assms(1) have "getFileContent_try env (path file) = Inl e"
    by (auto simp: getFileContent_try_def)
  then have r: "getFileContent env (path file) =
            \<lparr>content = [], error = Some (lit ''Reading error: '' @ errorMessage e),
             encoding = None\<rparr>"
    by (simp add: getFileContent_def)
  have "lit ''Reading error: '' @ errorMessage e \<noteq> []" by (simp add: lit_def)
  then have g: \<open>generateTextFileHTML env file =
             lit ''<p class="binary-notice">''
               @ escapeHTML (lit ''Reading error: '' @ errorMessage e) @ lit ''</p>''\<close>
    by (simp add: r generateTextFileHTML_def errorNotice_def)
  have \<open>generateFileContentsHTML env imageHTML (file # files) =
             lit ''<div class="file-path">/'' @ escapeHTML (relativePath file) @ lit '':</div>''
               @ lit ''<p class="binary-notice">''
               @ escapeHTML (lit ''Reading error: '' @ errorMessage e) @ lit ''</p>''
               @ generateFileContentsHTML env imageHTML files\<close>
    using assms(2) by (simp add: fileSectionHTML_def g)
  with r g show ?thesis by (intro conjI)
qed

text \<open>A file that vanished before the read, followed by no other file.\<close>

theorem C6_exceptions_become_notices_witness:
  \<open>isBinaryFileSync (failing_env (ErrorObj (lit ''ENOENT''))) (path sample_file) = Inr False
   \<and> readFileSync (failing_env (ErrorObj (lit ''ENOENT''))) (path sample_file)
        = Inl (ErrorObj (lit ''ENOENT''))
   \<and> type sample_file = Text
   \<and> getFileContent (failing_env (ErrorObj (lit ''ENOENT''))) (path sample_file) =
        \<lparr>content = [], error = Some (lit ''Reading error: ENOENT''), encoding = None\<rparr>
   \<and> generateTextFileHTML (failing_env (ErrorObj (lit ''ENOENT''))) sample_file =
        lit ''<p class="binary-notice">Reading error: ENOENT</p>''
   \<and> generateFileContentsHTML (failing_env (ErrorObj (lit ''ENOENT''))) (\<lambda>f. []) [sample_file] =
        lit ''<div class="file-path">/a.txt:</div><p class="binary-notice">Reading error: ENOENT</p>''\<close>
proof -
  let ?env = "failing_env (ErrorObj (lit ''ENOENT''))"
  have e: "escapeHTML (lit ''Reading error: ENOENT'') = lit ''Reading error: ENOENT''"
    by (rule escapeHTML_plain) (simp_all add: lit_def)
  have p: "escapeHTML (relativePath sample_file) = lit ''a.txt''"
    unfolding sample_file_def by (simp, rule escapeHTML_plain) (simp_all add: lit_def)
  have c: "lit ''Reading error: '' @ errorMessage (ErrorObj (lit ''ENOENT'')) = lit ''Reading error: ENOENT''"
    by (simp add: lit_def)
  have h: "isBinaryFileSync ?env (path sample_file) = Inl (ErrorObj (lit ''ENOENT''))
           \<or> (isBinaryFileSync ?env (path sample_file) = Inr False
                \<and> readFileSync ?env (path sample_file) = Inl (ErrorObj (lit ''ENOENT'')))
           \<or> (isBinaryFileSync ?env (path sample_file) = Inr False
                \<and> readFileSync ?env (path sample_file) = Inr []
                \<and> iconv_decode ?env [] (encoding_or_default (chardet_detect ?env []))
                    = Inl (ErrorObj (lit ''ENOENT'')))"
    by (simp add: failing_env_def)
  have t: "type sample_file = Text" by (simp add: sample_file_def)
  from C6_exceptions_become_notices [OF h t, of "\<lambda>f. []" "[]"]
  have \<open>getFileContent ?env (path sample_file) =
        \<lparr>content = [], error = Some (lit ''Reading error: ENOENT''), encoding = None\<rparr>
   \<and> generateTextFileHTML ?env sample_file =
        lit ''<p class="binary-notice">Reading error: ENOENT</p>''
   \<and> generateFileContentsHTML ?env (\<lambda>f. []) [sample_file] =
        lit ''<div class="file-path">/a.txt:</div><p class="binary-notice">Reading error: ENOENT</p>''\<close>
    unfolding c e p by (simp add: lit_def)
  with t show ?thesis by (simp add: failing_env_def)
qed

text \<open>
  C7. One \<open>try\<close> encloses the whole loop of \<open>_collectFilesRecursive\<close>, so the first
  entry on which a call throws ends the enumeration of its directory. With the
  recursive flag set and nothing ignored: when the type probe of the unreadable file
  \<open>a\<close> throws, the subdirectory \<open>sub\<close> listed after it is never entered by the
  collector, though the tree lists it with its file; and when \<open>fs.statSync\<close> throws
  on the link \<open>link\<close>, the collector stops there and the tree of the directory is
  the error line alone, so \<open>sub\<close> is entered for neither.
\<close>

theorem C7_exception_ends_listing:
  "collectFiles (ascii_collector True nothing_ignored) locked_tree = []
   \<and> getDirectoryStructure (ascii_collector True nothing_ignored) locked_tree
       = [lit ''repo/'', midConnector @ lit ''sub/'',
          midIndent @ lastConnector @ lit ''b.txt'', lastConnector @ lit ''a'']
   \<and> map relativePath (collectFiles (ascii_collector True nothing_ignored) dangling_tree)
       = [lit ''a.txt'']
   \<and> getDirectoryStructure (ascii_collector True nothing_ignored) dangling_tree
       = [lit ''repo/'',
          lit ''Error: ENOENT: no such file or directory, stat '' @ [0x27] @ lit ''/repo/link''
            @ [0x27]]"
proof -
  have 1: "collectFiles (ascii_collector True nothing_ignored) locked_tree = []"
    by (simp add: eval_defs locked_tree_def nothing_ignored_def)
  have 2: "getDirectoryStructure (ascii_collector True nothing_ignored) locked_tree
       = [lit ''repo/'', midConnector @ lit ''sub/'',
          midIndent @ lastConnector @ lit ''b.txt'', lastConnector @ lit ''a'']"
    by (simp add: eval_defs locked_tree_def nothing_ignored_def
        midConnector_def lastConnector_def midIndent_def)
  have 3: "map relativePath (collectFiles (ascii_collector True nothing_ignored) dangling_tree)
       = [lit ''a.txt'']"
    by (simp add: eval_defs dangling_tree_def nothing_ignored_def)
  have 4: "getDirectoryStructure (ascii_collector True nothing_ignored) dangling_tree
       = [lit ''repo/'',
          lit ''Error: ENOENT: no such file or directory, stat '' @ [0x27] @ lit ''/repo/link''
            @ [0x27]]"
    by (simp add: eval_defs dangling_tree_def nothing_ignored_def)
  from 1 2 3 4 show ?thesis by (intro conjI)
qed

text \<open>
  C8. The connector is chosen from the position among all sorted entries, the ignored
  ones included. In a directory holding \<open>a.txt\<close> and the ignored \<open>z.log\<close> the only
  visible entry, \<open>a.txt\<close>, is therefore drawn with the non-terminal connector.
\<close>

theorem C8_ignored_last_entry:
  "getDirectoryStructure (ascii_collector False ignore_z_log)
     (DirN (lit ''repo'') [FileN (lit ''a.txt'') (Inr False), FileN (lit ''z.log'') (Inr False)])
   = [lit ''repo/'', midConnector @ lit ''a.txt'']"
  by (simp add: getDirectoryStructure_def ascii_collector_def ignore_z_log_def
      buildTree.simps tree_entry.simps readdirSync_def sortItems_def
      compareItems_def basename_def path_join_def path_relative_def slash_def lit_def
      midConnector_def lastConnector_def)

text \<open>
  C9. Every collected entry has one of the three types, and the three counts over the
  collected list add up to its length.
\<close>

theorem C9_counts_sum_to_total:
  "list_all (\<lambda>f. type f = Text \<or> type f = Image \<or> type f = Binary) (collectFiles c root)
   \<and> textCount (collectFiles c root) + imageCount (collectFiles c root)
       + binaryCount (collectFiles c root) = length (collectFiles c root)"
  by (simp add: counts_partition types_exhaustive)

text \<open>
  C10, as amended. For an empty file that passes the binary probe, is read, and whose
  empty buffer decodes to the empty string, the reader returns empty content, no error
  and the label \<open>detected || 'utf8'\<close>: the charset the detector reports for the empty
  buffer, and \<open>utf8\<close> only when it reports none. The section is the encoding note
  and exactly one numbered, empty line.
\<close>

theorem C10_empty_file:
  assumes "isBinaryFileSync env (path file) = Inr False"
    and "readFileSync env (path file) = Inr []"
    and "iconv_decode env [] (encoding_or_default (chardet_detect env [])) = Inr []"
  shows \<open>getFileContent env (path file) =
            \<lparr>content = [], error = None,
             encoding = Some (encoding_or_default (chardet_detect env []))\<rparr>
         \<and> encoding_or_default (chardet_detect env []) =
             (case chardet_detect env [] of
                None \<Rightarrow> lit ''utf8''
              | Some d \<Rightarrow> if d = [] then lit ''utf8'' else d)
         \<and> generateTextFileHTML env file =
             lit ''<div class="encoding-info">Encoding: ''
               @ encoding_or_default (chardet_detect env [])
               @ lit ''</div><pre><span class="file-content-line"><span class="line-number">1</span></span>''
               @ [newline] @ lit ''</pre>''\<close>
proof -
  have r: "getFileContent env (path file) =
            \<lparr>content = [], error = None,
             encoding = Some (encoding_or_default (chardet_detect env []))\<rparr>"
    using assms by (simp add: getFileContent_def getFileContent_try_def controlScreen_def)
  have e: "encoding_or_default (chardet_detect env []) =
             (case chardet_detect env [] of
                None \<Rightarrow> lit ''utf8''
              | Some d \<Rightarrow> if d = [] then lit ''utf8'' else d)"
    by (simp add: encoding_or_default_def split: option.splits)
  have l: \<open>lineHTML (Suc 0) [] =
     lit ''<span class="file-content-line"><span class="line-number">1</span></span>'' @ [newline]\<close>
    by (simp add: lineHTML_def displayLine_def maxLineLength_def escapeHTML_def replaceAll_def
        show_nat.simps lit_def)
  have g: "generateTextFileHTML env file =
             encodingInfo (Some (encoding_or_default (chardet_detect env []))) @ lit ''<pre>''
               @ lineHTML (Suc 0) [] @ lit ''</pre>''"
    by (simp add: generateTextFileHTML_def r displayLines_def maxLines_def)
  have i: \<open>encodingInfo (Some (encoding_or_default (chardet_detect env []))) =
             lit ''<div class="encoding-info">Encoding: ''
               @ encoding_or_default (chardet_detect env []) @ lit ''</div>''\<close>
    by (simp add: encodingInfo_def encoding_or_default_not_Nil)
  have \<open>generateTextFileHTML env file =
             lit ''<div class="encoding-info">Encoding: ''
               @ encoding_or_default (chardet_detect env [])
               @ lit ''</div><pre><span class="file-content-line"><span class="line-number">1</span></span>''
               @ [newline] @ lit ''</pre>''\<close>
    by (simp only: g l i) (simp add: lit_def)
  with r e show ?thesis by (intro conjI)
qed

text \<open>A detector that reports nothing for the empty buffer: the label is \<open>utf8\<close>.\<close>

theorem C10_empty_file_witness:
  \<open>isBinaryFileSync (sample_env [] None) (path sample_file) = Inr False
   \<and> readFileSync (sample_env [] None) (path sample_file) = Inr []
   \<and> getFileContent (sample_env [] None) (path sample_file) =
        \<lparr>content = [], error = None, encoding = Some (lit ''utf8'')\<rparr>
   \<and> generateTextFileHTML (sample_env [] None) sample_file =
        lit ''<div class="encoding-info">Encoding: utf8</div><pre><span class="file-content-line"><span class="line-number">1</span></span>''
          @ [newline] @ lit ''</pre>''\<close>
  using C10_empty_file [of "sample_env [] None" sample_file]
  by (simp add: sample_env_def encoding_or_default_def) (simp add: lit_def)

text \<open>
  The claim as stated fails for a detector that reports \<open>UTF-8\<close> for the empty
  buffer: the label is the detected one, not the fallback.
\<close>

theorem C10_detected_label_counterexample:
  "isBinaryFileSync (sample_env [] (Some (lit ''UTF-8''))) (path sample_file) = Inr False
   \<and> readFileSync (sample_env [] (Some (lit ''UTF-8''))) (path sample_file) = Inr []
   \<and> getFileContent (sample_env [] (Some (lit ''UTF-8''))) (path sample_file) =
        \<lparr>content = [], error = None, encoding = Some (lit ''UTF-8'')\<rparr>
   \<and> lit ''UTF-8'' \<noteq> lit ''utf8''"
  by (simp add: getFileContent_def getFileContent_try_def controlScreen_def sample_env_def
      encoding_or_default_def lit_def)

end
